theory Spec2Isabelle
  imports Main
begin

text \<open>
  A verification development for the entity-resolution core of the WSA retention analysis:
  the normalizers and the exact and fuzzy stages of \<open>src/data_processor.py\<close>, and the
  second matching pass and the diagnostics of \<open>src/matching_analyzer.py\<close>.
\<close>

section \<open>Strings\<close>

text \<open>
  Python strings are modelled as \<open>string\<close> (a list of characters).  The model covers
  ASCII text: the character classes of \<open>str.lower\<close>, \<open>str.strip\<close>,
  \<open>\s\<close> and \<open>\w\<close> are the ASCII ones, whereas Python's are the Unicode
  ones (an accented letter is a word character, a no-break space is whitespace).  What
  is proved of the normalizers below is proved for ASCII input.
\<close>

definition is_space :: "char \<Rightarrow> bool" where
  "is_space c =
     (let n = (of_char c :: nat) in n = 32 \<or> (9 \<le> n \<and> n \<le> 13) \<or> (28 \<le> n \<and> n \<le> 31))"

definition is_upper :: "char \<Rightarrow> bool" where
  "is_upper c = (let n = (of_char c :: nat) in 65 \<le> n \<and> n \<le> 90)"

definition is_word :: "char \<Rightarrow> bool" where
  "is_word c =
     (let n = (of_char c :: nat)
      in (48 \<le> n \<and> n \<le> 57) \<or> (65 \<le> n \<and> n \<le> 90) \<or> n = 95 \<or> (97 \<le> n \<and> n \<le> 122))"

definition lower_char :: "char \<Rightarrow> char" where
  "lower_char c = (if is_upper c then char_of ((of_char c :: nat) + 32) else c)"

text \<open>\<open>s.lower()\<close>\<close>

definition lower :: "string \<Rightarrow> string" where
  "lower s = map lower_char s"

text \<open>\<open>s.strip()\<close>\<close>

definition strip :: "string \<Rightarrow> string" where
  "strip s = rev (dropWhile is_space (rev (dropWhile is_space s)))"

text \<open>\<open>s.split()\<close>: the maximal runs of non-whitespace characters.\<close>

fun split_ws_acc :: "string \<Rightarrow> string \<Rightarrow> string list" where
  "split_ws_acc cur [] = (if cur = [] then [] else [rev cur])"
| "split_ws_acc cur (c # cs) =
     (if is_space c then (if cur = [] then split_ws_acc [] cs else rev cur # split_ws_acc [] cs)
      else split_ws_acc (c # cur) cs)"

definition split_ws :: "string \<Rightarrow> string list" where
  "split_ws s = split_ws_acc [] s"

text \<open>\<open>s.split(sep)\<close> for a one-character separator: empty pieces are kept.\<close>

fun split_on_acc :: "char \<Rightarrow> string \<Rightarrow> string \<Rightarrow> string list" where
  "split_on_acc sep cur [] = [rev cur]"
| "split_on_acc sep cur (c # cs) =
     (if c = sep then rev cur # split_on_acc sep [] cs else split_on_acc sep (c # cur) cs)"

definition split_on :: "char \<Rightarrow> string \<Rightarrow> string list" where
  "split_on sep s = split_on_acc sep [] s"

text \<open>\<open>' '.join(parts)\<close>\<close>

fun join_sp :: "string list \<Rightarrow> string" where
  "join_sp [] = []"
| "join_sp [p] = p"
| "join_sp (p # q # ps) = p @ CHR '' '' # join_sp (q # ps)"

section \<open>Normalizer (\<open>DataProcessor.clean_names\<close>, \<open>DataProcessor.clean_emails\<close>)\<close>

text \<open>\<open>re.sub(r'\s+', ' ', name)\<close>: every maximal run of whitespace becomes one blank.\<close>

function collapse_ws :: "string \<Rightarrow> string" where
  "collapse_ws [] = []"
| "collapse_ws (c # cs) =
     (if is_space c then CHR '' '' # collapse_ws (dropWhile is_space cs)
      else c # collapse_ws cs)"
  by pat_completeness auto
termination
  by (relation "measure length") (auto simp: less_Suc_eq_le length_dropWhile_le)

text \<open>
  \<open>\b\<close>: a word boundary lies between two neighbours exactly one of which is a word
  character; the ends of the string count as non-word.
\<close>

definition boundary :: "char option \<Rightarrow> char option \<Rightarrow> bool" where
  "boundary l r =
     ((case l of None \<Rightarrow> False | Some c \<Rightarrow> is_word c)
        \<noteq> (case r of None \<Rightarrow> False | Some c \<Rightarrow> is_word c))"

definition next_char :: "string \<Rightarrow> char option" where
  "next_char s = (case s of [] \<Rightarrow> None | c # _ \<Rightarrow> Some c)"

text \<open>
  One alternative \<open>t\.?\<close> of the title pattern followed by \<open>\b\<close>, tried at the start of
  \<open>s\<close>: the optional dot is greedy, and the matcher backtracks to the match without the
  dot when no boundary follows the dot.  The result is the length matched.
\<close>

definition match_alt :: "string \<Rightarrow> string \<Rightarrow> nat option" where
  "match_alt t s =
     (if take (length t) s = t \<and> t \<noteq> [] then
        (let rest = drop (length t) s in
         if next_char rest = Some CHR ''.'' \<and> boundary (Some CHR ''.'') (next_char (tl rest))
           then Some (length t + 1)
         else if boundary (Some (last t)) (next_char rest) then Some (length t)
         else None)
      else None)"

fun first_alt :: "string list \<Rightarrow> string \<Rightarrow> nat option" where
  "first_alt [] s = None"
| "first_alt (t # ts) s = (case match_alt t s of Some n \<Rightarrow> Some n | None \<Rightarrow> first_alt ts s)"

text \<open>
  \<open>\b(mr\.?|mrs\.?|ms\.?|dr\.?)\b\<close> tried at one position, \<open>prev\<close> being the character
  before it: the alternatives in the order of the pattern.
\<close>

definition match_title :: "char option \<Rightarrow> string \<Rightarrow> nat option" where
  "match_title prev s =
     (if boundary prev (next_char s) then first_alt [''mr'', ''mrs'', ''ms'', ''dr''] s else None)"

lemma match_alt_pos: "match_alt t s = Some n \<Longrightarrow> 0 < n"
  by (auto simp: match_alt_def Let_def split: if_splits)

lemma first_alt_pos: "first_alt ts s = Some n \<Longrightarrow> 0 < n"
  by (induction ts) (auto split: option.splits dest: match_alt_pos)

lemma match_title_pos: "match_title prev s = Some n \<Longrightarrow> 0 < n"
  unfolding match_title_def using first_alt_pos by (metis option.distinct(1))

text \<open>
  \<open>re.sub(r'\b(mr\.?|mrs\.?|ms\.?|dr\.?)\b', '', name)\<close>: scan from the left, delete each
  match and go on behind it.
\<close>

function sub_titles :: "char option \<Rightarrow> string \<Rightarrow> string" where
  "sub_titles prev [] = []"
| "sub_titles prev (c # cs) =
     (case match_title prev (c # cs) of
        Some n \<Rightarrow> sub_titles (Some (last (take n (c # cs)))) (drop n (c # cs))
      | None \<Rightarrow> c # sub_titles (Some c) cs)"
  by pat_completeness auto
termination
  by (relation "measure (\<lambda>(prev, s). length s)") (auto dest: match_title_pos)

text \<open>\<open>re.sub(r'[^\w\s\-]', '', name)\<close>\<close>

definition remove_special :: "string \<Rightarrow> string" where
  "remove_special s = filter (\<lambda>c. is_word c \<or> is_space c \<or> c = CHR ''-'') s"

definition clean_names :: "string \<Rightarrow> string" where
  "clean_names name =
     (if name = [] then []
      else strip (remove_special (sub_titles None (collapse_ws (strip (lower name))))))"

text \<open>
  \<open>re.split(r'[,;\s]+', email)\<close>: the pieces between maximal runs of separators; a
  run at either end leaves an empty piece there.
\<close>

definition is_sep :: "char \<Rightarrow> bool" where
  "is_sep c = (c = CHR '','' \<or> c = CHR '';'' \<or> is_space c)"

function split_seps_acc :: "string \<Rightarrow> string \<Rightarrow> string list" where
  "split_seps_acc cur [] = [rev cur]"
| "split_seps_acc cur (c # cs) =
     (if is_sep c then rev cur # split_seps_acc [] (dropWhile is_sep cs)
      else split_seps_acc (c # cur) cs)"
  by pat_completeness auto
termination
  by (relation "measure (\<lambda>(cur, s). length s)") (auto simp: less_Suc_eq_le length_dropWhile_le)

definition split_seps :: "string \<Rightarrow> string list" where
  "split_seps s = split_seps_acc [] s"

text \<open>\<open>'@' in e and '.' in e.split('@')[-1]\<close>\<close>

definition valid_email :: "string \<Rightarrow> bool" where
  "valid_email e = (CHR ''@'' \<in> set e \<and> CHR ''.'' \<in> set (last (split_on CHR ''@'' e)))"

fun first_valid :: "string list \<Rightarrow> string option" where
  "first_valid [] = None"
| "first_valid (e # es) = (if valid_email (strip e) then Some (strip e) else first_valid es)"

definition clean_emails :: "string \<Rightarrow> string" where
  "clean_emails email =
     (if email = [] then []
      else (let email' = strip (lower email) in
            case first_valid (split_seps email') of Some e \<Rightarrow> e | None \<Rightarrow> email'))"

section \<open>The similarity library\<close>

text \<open>
  The scorers of the third-party package \<open>fuzzywuzzy\<close> are parameters of the model:
  \<open>WRatio\<close> is the default scorer of \<open>process.extract\<close> (with its default
  processor), \<open>ratio\<close> is \<open>fuzz.ratio\<close>.  Scores are Python integers.
\<close>

record fuzz =
  WRatio :: "string \<Rightarrow> string \<Rightarrow> int"
  ratio :: "string \<Rightarrow> string \<Rightarrow> int"

text \<open>
  \<open>process.extract(query, choices, limit=n)\<close>: every choice is scored, and
  \<open>heapq.nlargest(n, ..., key=score)\<close> returns what
  \<open>sorted(..., key=score, reverse=True)[:n]\<close> returns: the pairs by falling score,
  pairs of equal score in the order of the choices.
\<close>

definition process_extract :: "(string \<Rightarrow> string \<Rightarrow> int) \<Rightarrow> string \<Rightarrow> string list \<Rightarrow> nat
    \<Rightarrow> (string \<times> int) list" where
  "process_extract scorer query choices limit =
     take limit (sort_key (\<lambda>(c, s). - s) (map (\<lambda>c. (c, scorer query c)) choices))"

section \<open>Data frames\<close>

text \<open>
  A data frame is the list of its rows, in index order; a row is a record of the columns
  the matching code reads or writes.  The other columns of a registration (institution,
  program, country, dates) are carried along unchanged and are left out.
\<close>

record survey_row =
  s_Name :: string
  s_Email_Address :: string
  s_Status :: string
  s_name_clean :: string
  s_email_clean :: string

record reg_row =
  Name :: string
  Email :: string
  name_clean :: string
  email_clean :: string

record result_row = reg_row +
  retention_status :: string
  match_type :: string
  match_confidence :: int

text \<open>
  The state of a \<open>DataProcessor\<close> after \<open>load_data\<close>; the registrations are
  the rows that \<open>filter_pei_students\<close> keeps.
\<close>

record data_processor =
  retention_survey :: "survey_row list"
  registrations_2023 :: "reg_row list"
  registrations_2024 :: "reg_row list"

datatype error = ValueError | IndexError | ZeroDivisionError | ReError

text \<open>The cleaning steps of \<open>preprocess_data\<close>: the two derived columns.\<close>

definition clean_survey_row :: "survey_row \<Rightarrow> survey_row" where
  "clean_survey_row r =
     r\<lparr>s_name_clean := clean_names (s_Name r), s_email_clean := clean_emails (s_Email_Address r)\<rparr>"

definition clean_reg_row :: "reg_row \<Rightarrow> reg_row" where
  "clean_reg_row r = r\<lparr>name_clean := clean_names (Name r), email_clean := clean_emails (Email r)\<rparr>"

definition preprocess_data :: "data_processor \<Rightarrow> data_processor" where
  "preprocess_data dp =
     \<lparr>retention_survey = map clean_survey_row (retention_survey dp),
      registrations_2023 = map clean_reg_row (registrations_2023 dp),
      registrations_2024 = map clean_reg_row (registrations_2024 dp)\<rparr>"

text \<open>\<open>dict(zip(keys, values))\<close>: a later pair overwrites an earlier one with the same key.\<close>

definition dict_zip :: "'k list \<Rightarrow> 'v list \<Rightarrow> ('k \<rightharpoonup> 'v)" where
  "dict_zip ks vs = fold (\<lambda>(k, v) m. m(k \<mapsto> v)) (zip ks vs) Map.empty"

text \<open>\<open>frame[mask].iloc[0]\<close> and \<open>frame[mask].index[0]\<close>: the first selected row.\<close>

definition iloc0 :: "'a list \<Rightarrow> error + 'a" where
  "iloc0 rows = (case rows of [] \<Rightarrow> Inl IndexError | r # _ \<Rightarrow> Inr r)"

section \<open>Exact and fuzzy stage (\<open>DataProcessor.match_members\<close>)\<close>

definition find_name_matches :: "fuzz \<Rightarrow> string \<Rightarrow> string list \<Rightarrow> int \<Rightarrow> (string \<times> int) list" where
  "find_name_matches fz name candidate_names threshold =
     (if name = [] \<or> candidate_names = [] then []
      else filter (\<lambda>(m, s). s \<ge> threshold) (process_extract (WRatio fz) name candidate_names 5))"

text \<open>The three result columns as \<open>match_members\<close> initialises them.\<close>

definition init_result :: "reg_row \<Rightarrow> result_row" where
  "init_result r =
     \<lparr>Name = Name r, Email = Email r, name_clean = name_clean r, email_clean = email_clean r,
      retention_status = ''Unknown'', match_type = ''None'', match_confidence = 0\<rparr>"

text \<open>The body of the loop over the rows of \<open>results\<close>.\<close>

definition match_row :: "fuzz \<Rightarrow> survey_row list \<Rightarrow> (string \<rightharpoonup> string) \<Rightarrow> (string \<rightharpoonup> string)
    \<Rightarrow> result_row \<Rightarrow> error + result_row" where
  "match_row fz survey survey_name_lookup survey_email_lookup row =
     (case (if email_clean row \<noteq> [] then survey_email_lookup (email_clean row) else None) of
        Some status \<Rightarrow>
          Inr (row\<lparr>retention_status := status, match_type := ''Email'', match_confidence := 100\<rparr>)
      | None \<Rightarrow>
     (case (if name_clean row \<noteq> [] then survey_name_lookup (name_clean row) else None) of
        Some status \<Rightarrow>
          Inr (row\<lparr>retention_status := status, match_type := ''Name_Exact'',
                  match_confidence := 100\<rparr>)
      | None \<Rightarrow>
     (if name_clean row \<noteq> [] then
        (case find_name_matches fz (name_clean row) (map s_name_clean survey) 80 of
           [] \<Rightarrow> Inr row
         | (best_match, confidence) # _ \<Rightarrow>
             if confidence \<ge> 85 then
               (case iloc0 (filter (\<lambda>s. s_name_clean s = best_match) survey) of
                  Inl e \<Rightarrow> Inl e
                | Inr match \<Rightarrow>
                    Inr (row\<lparr>retention_status := s_Status match, match_type := ''Name_Fuzzy'',
                            match_confidence := confidence\<rparr>))
             else Inr row)
      else Inr row)))"

text \<open>A loop over rows that stops at the first exception.\<close>

fun for_rows :: "('a \<Rightarrow> error + 'b) \<Rightarrow> 'a list \<Rightarrow> error + 'b list" where
  "for_rows f [] = Inr []"
| "for_rows f (r # rs) =
     (case f r of
        Inl e \<Rightarrow> Inl e
      | Inr r' \<Rightarrow> (case for_rows f rs of Inl e \<Rightarrow> Inl e | Inr rs' \<Rightarrow> Inr (r' # rs')))"

definition match_frame :: "fuzz \<Rightarrow> survey_row list \<Rightarrow> reg_row list \<Rightarrow> error + result_row list" where
  "match_frame fz survey registrations =
     (let results = map init_result registrations;
          survey_name_lookup = dict_zip (map s_name_clean survey) (map s_Status survey);
          survey_email_lookup = dict_zip (map s_email_clean survey) (map s_Status survey)
      in for_rows (match_row fz survey survey_name_lookup survey_email_lookup) results)"

definition match_members :: "fuzz \<Rightarrow> data_processor \<Rightarrow> int \<Rightarrow> error + result_row list" where
  "match_members fz dp year =
     (if year = 2023 then match_frame fz (retention_survey dp) (registrations_2023 dp)
      else if year = 2024 then match_frame fz (retention_survey dp) (registrations_2024 dp)
      else Inl ValueError)"

section \<open>Second pass (\<open>MatchingAnalyzer.improved_matching\<close>)\<close>

text \<open>
  The local variables \<open>best_match\<close>, \<open>best_score\<close> and \<open>match_type\<close> of the loop
  body are only assigned together, so one optional triple stands for them: \<open>None\<close> is
  their initial state (\<open>None\<close>, \<open>0\<close>, \<open>None\<close>).
\<close>

type_synonym search = "(string \<times> int \<times> string) option"

text \<open>Python's truth value of \<open>best_match\<close>: \<open>None\<close> and the empty string are false.\<close>

definition truthy :: "search \<Rightarrow> bool" where
  "truthy st = (case st of None \<Rightarrow> False | Some (best_match, best_score, mtype) \<Rightarrow> best_match \<noteq> [])"

text \<open>\<open>f"{name_parts[0]} {name_parts[-1]}"\<close>\<close>

definition first_last :: "string list \<Rightarrow> string" where
  "first_last name_parts = hd name_parts @ '' '' @ last name_parts"

text \<open>Strategy 1: partial name (first and last name only).\<close>

definition strategy_partial_name :: "fuzz \<Rightarrow> survey_row list \<Rightarrow> int \<Rightarrow> string \<Rightarrow> search \<Rightarrow> search" where
  "strategy_partial_name fz survey_data confidence_threshold name st =
     (if name \<noteq> [] \<and> \<not> truthy st then
        (let name_parts = split_ws name in
         if length name_parts \<ge> 2 then
           (case find (\<lambda>(match_name, score). score \<ge> confidence_threshold)
                   (process_extract (WRatio fz) (first_last name_parts)
                      (map s_name_clean survey_data) 3) of
              Some (match_name, score) \<Rightarrow> Some (match_name, score, ''Partial_Name'')
            | None \<Rightarrow> st)
         else st)
      else st)"

text \<open>\<open>re.sub(r'[aeiou]', '', s.lower())\<close>\<close>

definition consonants :: "string \<Rightarrow> string" where
  "consonants s = filter (\<lambda>c. c \<notin> set ''aeiou'') (lower s)"

text \<open>Strategy 2: phonetic, on the names without their vowels.\<close>

definition strategy_phonetic :: "fuzz \<Rightarrow> survey_row list \<Rightarrow> int \<Rightarrow> string \<Rightarrow> search \<Rightarrow> search" where
  "strategy_phonetic fz survey_data confidence_threshold name st =
     (if name \<noteq> [] \<and> \<not> truthy st then
        (let name_consonants = consonants name in
         case find (\<lambda>survey_name.
                      length name_consonants > 3 \<and> length (consonants survey_name) > 3 \<and>
                      ratio fz name_consonants (consonants survey_name)
                        \<ge> confidence_threshold + 10)
                (map s_name_clean survey_data) of
           Some survey_name \<Rightarrow>
             Some (survey_name, ratio fz name_consonants (consonants survey_name), ''Phonetic'')
         | None \<Rightarrow> st)
      else st)"

text \<open>\<open>email.split('@')[0]\<close>\<close>

definition username_of :: "string \<Rightarrow> string" where
  "username_of email = hd (split_on CHR ''@'' email)"

text \<open>Strategy 3: the part of the email before the first \<open>@\<close>.\<close>

definition strategy_email_username :: "fuzz \<Rightarrow> survey_row list \<Rightarrow> int \<Rightarrow> string \<Rightarrow> search
    \<Rightarrow> error + search" where
  "strategy_email_username fz survey_data confidence_threshold email st =
     (if email \<noteq> [] \<and> CHR ''@'' \<in> set email \<and> \<not> truthy st then
        (let username = username_of email in
         case find (\<lambda>survey_email.
                      CHR ''@'' \<in> set survey_email \<and>
                      ratio fz username (username_of survey_email) \<ge> confidence_threshold)
                (map s_email_clean survey_data) of
           Some survey_email \<Rightarrow>
             (case iloc0 (filter (\<lambda>s. s_email_clean s = survey_email) survey_data) of
                Inl e \<Rightarrow> Inl e
              | Inr survey_row \<Rightarrow>
                  Inr (Some (s_name_clean survey_row,
                             ratio fz username (username_of survey_email), ''Email_Username'')))
         | None \<Rightarrow> Inr st)
      else Inr st)"

text \<open>
  The strategies in the order of the loop body, for one unmatched \<open>person\<close>; the result
  is the state of the variables when ``Apply the best match found'' is reached.
\<close>

definition search_person :: "fuzz \<Rightarrow> survey_row list \<Rightarrow> int \<Rightarrow> result_row \<Rightarrow> error + search" where
  "search_person fz survey_data confidence_threshold person =
     strategy_email_username fz survey_data confidence_threshold (email_clean person)
       (strategy_phonetic fz survey_data confidence_threshold (name_clean person)
         (strategy_partial_name fz survey_data confidence_threshold (name_clean person) None))"

text \<open>
  ``Apply the best match found'': the row of \<open>original_results\<close> takes the status of the
  first survey row whose \<open>name_clean\<close> is \<open>best_match\<close>.
\<close>

definition apply_best :: "survey_row list \<Rightarrow> search \<Rightarrow> result_row \<Rightarrow> error + result_row" where
  "apply_best survey_data st row =
     (case st of
        None \<Rightarrow> Inr row
      | Some (best_match, best_score, mtype) \<Rightarrow>
          if best_match \<noteq> [] then
            (case iloc0 (filter (\<lambda>s. s_name_clean s = best_match) survey_data) of
               Inl e \<Rightarrow> Inl e
             | Inr match \<Rightarrow>
                 Inr (row\<lparr>retention_status := s_Status match, match_type := mtype,
                         match_confidence := best_score\<rparr>))
          else Inr row)"

text \<open>
  The loop over \<open>unmatched\<close>, a copy of the rows of \<open>original_results\<close> whose status
  is \<open>'Unknown'\<close>, each with its index label; the writes go to \<open>original_results\<close> at
  that label.  The labels are those of \<open>original_results\<close> itself, so the label of a
  write is always present (lemma \<open>unmatched_of_in_range\<close> below); the model gives an
  absent label an error.
\<close>

fun improve_loop :: "fuzz \<Rightarrow> survey_row list \<Rightarrow> int \<Rightarrow> (nat \<times> result_row) list \<Rightarrow> result_row list
    \<Rightarrow> error + result_row list" where
  "improve_loop fz survey_data confidence_threshold [] original_results = Inr original_results"
| "improve_loop fz survey_data confidence_threshold ((idx, person) # unmatched) original_results =
     (case search_person fz survey_data confidence_threshold person of
        Inl e \<Rightarrow> Inl e
      | Inr st \<Rightarrow>
          (if idx < length original_results then
             (case apply_best survey_data st (original_results ! idx) of
                Inl e \<Rightarrow> Inl e
              | Inr row \<Rightarrow>
                  improve_loop fz survey_data confidence_threshold unmatched
                    (original_results[idx := row]))
           else Inl IndexError))"

text \<open>\<open>original_results[original_results['retention_status'] == 'Unknown'].copy()\<close>\<close>

definition unmatched_of :: "result_row list \<Rightarrow> (nat \<times> result_row) list" where
  "unmatched_of results =
     filter (\<lambda>(idx, row). retention_status row = ''Unknown'') (enumerate 0 results)"

definition improved_matching :: "fuzz \<Rightarrow> data_processor \<Rightarrow> int \<Rightarrow> int \<Rightarrow> error + result_row list" where
  "improved_matching fz dp year confidence_threshold =
     (case match_members fz dp year of
        Inl e \<Rightarrow> Inl e
      | Inr original_results \<Rightarrow>
          improve_loop fz (retention_survey dp) confidence_threshold
            (unmatched_of original_results) original_results)"

section \<open>Diagnostics (\<open>MatchingAnalyzer.analyze_unmatched_records\<close>)\<close>

text \<open>The dictionary \<open>nickname_map\<close>, in the order it is written.\<close>

definition nickname_map :: "(string \<times> string) list" where
  "nickname_map =
     [(''william'', ''bill''), (''robert'', ''bob''), (''james'', ''jim''), (''richard'', ''rick''),
      (''michael'', ''mike''), (''david'', ''dave''), (''christopher'', ''chris''),
      (''matthew'', ''matt''), (''anthony'', ''tony''), (''joseph'', ''joe''),
      (''daniel'', ''dan''), (''andrew'', ''andy''), (''kenneth'', ''ken''),
      (''elizabeth'', ''liz''), (''patricia'', ''pat''), (''jennifer'', ''jen''),
      (''margaret'', ''meg''), (''catherine'', ''kate''), (''stephanie'', ''steph'')]"

definition generate_name_variants :: "string \<Rightarrow> string list" where
  "generate_name_variants name =
     (let name_parts = split_ws name in
      if length name_parts \<ge> 2 then
        (let first_name = lower (hd name_parts);
             rest = join_sp (tl name_parts)
         in [last name_parts @ '' '' @ hd name_parts]
            @ (if length name_parts > 2 then [hd name_parts @ '' '' @ last name_parts] else [])
            @ (case map_of nickname_map first_name of
                 Some nick \<Rightarrow> [nick @ '' '' @ rest]
               | None \<Rightarrow> [])
            @ map (\<lambda>(full, nick). full @ '' '' @ rest)
                (filter (\<lambda>(full, nick). first_name = nick) nickname_map))
      else [])"

text \<open>One suggested survey row: a dictionary of \<open>_find_potential_matches\<close>.\<close>

record candidate =
  ctype :: string
  score :: int
  matched_name :: string
  matched_email :: string
  status :: string
  variant_used :: "string option"

record suggestion =
  registration_name :: string
  registration_email :: string
  potential_matches :: "candidate list"

definition mk_candidate :: "string \<Rightarrow> int \<Rightarrow> string option \<Rightarrow> survey_row \<Rightarrow> candidate" where
  "mk_candidate t sc v survey_row =
     \<lparr>ctype = t, score = sc, matched_name = s_Name survey_row,
      matched_email = s_Email_Address survey_row, status = s_Status survey_row,
      variant_used = v\<rparr>"

text \<open>
  The candidates that \<open>process.extract(query, survey_data['name_clean'], limit=n)\<close>
  gives at or above a display threshold, each resolved to the first survey row of that
  name.
\<close>

definition name_candidates :: "fuzz \<Rightarrow> survey_row list \<Rightarrow> string \<Rightarrow> nat \<Rightarrow> int \<Rightarrow> string
    \<Rightarrow> string option \<Rightarrow> error + candidate list" where
  "name_candidates fz survey_data query limit threshold t v =
     for_rows (\<lambda>(match, sc).
                 case iloc0 (filter (\<lambda>s. s_name_clean s = match) survey_data) of
                   Inl e \<Rightarrow> Inl e
                 | Inr survey_row \<Rightarrow> Inr (mk_candidate t sc v survey_row))
       (filter (\<lambda>(match, sc). sc \<ge> threshold)
          (process_extract (WRatio fz) query (map s_name_clean survey_data) limit))"

text \<open>1. Partial name matching.\<close>

definition partial_candidates :: "fuzz \<Rightarrow> survey_row list \<Rightarrow> string \<Rightarrow> error + candidate list" where
  "partial_candidates fz survey_data name =
     (if name \<noteq> [] \<and> length (split_ws name) \<ge> 2 then
        name_candidates fz survey_data (first_last (split_ws name)) 3 70 ''partial_name'' None
      else Inr [])"

text \<open>
  2. Email domain matching.  \<open>str.contains\<close>, given the character \<open>@\<close> followed by the domain, searches the
  survey emails for a regular expression built from the registration's domain; the
  regular-expression library is a parameter \<open>re_compile\<close>, which gives \<open>None\<close> for
  a pattern it rejects and the search predicate otherwise.
\<close>

definition email_candidates :: "(string \<Rightarrow> (string \<Rightarrow> bool) option) \<Rightarrow> fuzz \<Rightarrow> survey_row list
    \<Rightarrow> string \<Rightarrow> error + candidate list" where
  "email_candidates re_compile fz survey_data email =
     (if email \<noteq> [] \<and> CHR ''@'' \<in> set email then
        (let email_parts = split_on CHR ''@'' email;
             username = email_parts ! 0;
             domain = email_parts ! 1
         in case re_compile (CHR ''@'' # domain) of
              None \<Rightarrow> Inl ReError
            | Some found \<Rightarrow>
                Inr (map (\<lambda>survey_row.
                            mk_candidate ''email_domain''
                              (ratio fz username (username_of (s_email_clean survey_row)))
                              None survey_row)
                       (filter (\<lambda>survey_row.
                                  ratio fz username (username_of (s_email_clean survey_row)) \<ge> 60)
                          (filter (\<lambda>survey_row. found (s_email_clean survey_row))
                             survey_data))))
      else Inr [])"

text \<open>3. Nickname/variant matching.\<close>

definition variant_candidates :: "fuzz \<Rightarrow> survey_row list \<Rightarrow> string \<Rightarrow> error + candidate list" where
  "variant_candidates fz survey_data name =
     (if name \<noteq> [] then
        (case for_rows (\<lambda>variant.
                          name_candidates fz survey_data variant 2 80 ''name_variant''
                            (Some variant))
                (generate_name_variants name) of
           Inl e \<Rightarrow> Inl e
         | Inr css \<Rightarrow> Inr (concat css))
      else Inr [])"

text \<open>The body of the loop over \<open>unmatched\<close>: the entry appended for \<open>person\<close>, if any.\<close>

definition potential_for :: "(string \<Rightarrow> (string \<Rightarrow> bool) option) \<Rightarrow> fuzz \<Rightarrow> survey_row list
    \<Rightarrow> result_row \<Rightarrow> error + suggestion option" where
  "potential_for re_compile fz survey_data person =
     (case partial_candidates fz survey_data (name_clean person) of
        Inl e \<Rightarrow> Inl e
      | Inr ps \<Rightarrow>
     (case email_candidates re_compile fz survey_data (email_clean person) of
        Inl e \<Rightarrow> Inl e
      | Inr es \<Rightarrow>
     (case variant_candidates fz survey_data (name_clean person) of
        Inl e \<Rightarrow> Inl e
      | Inr vs \<Rightarrow>
          (let matches = ps @ es @ vs in
           if matches \<noteq> [] then
             Inr (Some \<lparr>registration_name = Name person, registration_email = Email person,
                        potential_matches = take 5 matches\<rparr>)
           else Inr None))))"

definition find_potential_matches :: "(string \<Rightarrow> (string \<Rightarrow> bool) option) \<Rightarrow> fuzz \<Rightarrow> survey_row list
    \<Rightarrow> result_row list \<Rightarrow> error + suggestion list" where
  "find_potential_matches re_compile fz survey_data unmatched =
     (case for_rows (potential_for re_compile fz survey_data) unmatched of
        Inl e \<Rightarrow> Inl e
      | Inr entries \<Rightarrow> Inr (concat (map (\<lambda>e. case e of None \<Rightarrow> [] | Some x \<Rightarrow> [x]) entries)))"

text \<open>
  The analysis dictionary, without its floating-point percentage, its grouped counts
  (\<open>patterns\<close>) and its suggestion strings, which no property below reads.
\<close>

record analysis =
  a_year :: int
  total_registrations :: nat
  total_unmatched :: nat
  unmatched_records :: "result_row list"
  a_potential_matches :: "suggestion list"

text \<open>The state of a \<open>MatchingAnalyzer\<close>.\<close>

record matching_analyzer =
  data_processor :: data_processor
  unmatched_analysis :: "int \<rightharpoonup> analysis"

text \<open>
  \<open>analyze_unmatched_records\<close> returns the analysis and stores it under the year.
  It works on the new frame that \<open>match_members\<close> returns (a copy of the
  registrations) and on a copy of the \<open>Unknown\<close> rows of that frame; the frames of
  the data processor are only read.
  The percentage \<open>len(unmatched) / len(registrations) * 100\<close> is evaluated before the
  potential matches and raises \<open>ZeroDivisionError\<close> on an empty registration frame.
\<close>

definition analyze_unmatched_records :: "(string \<Rightarrow> (string \<Rightarrow> bool) option) \<Rightarrow> fuzz
    \<Rightarrow> matching_analyzer \<Rightarrow> int \<Rightarrow> error + (analysis \<times> matching_analyzer)" where
  "analyze_unmatched_records re_compile fz self yr =
     (if yr \<noteq> 2023 \<and> yr \<noteq> 2024 then Inl ValueError
      else
        (let registrations = (if yr = 2023 then registrations_2023 (data_processor self)
                              else registrations_2024 (data_processor self))
         in case match_members fz (data_processor self) yr of
              Inl e \<Rightarrow> Inl e
            | Inr matched_data \<Rightarrow>
                (let unmatched = filter (\<lambda>row. retention_status row = ''Unknown'') matched_data
                 in if length registrations = 0 then Inl ZeroDivisionError
                    else
                      (case find_potential_matches re_compile fz
                              (retention_survey (data_processor self)) unmatched of
                         Inl e \<Rightarrow> Inl e
                       | Inr pm \<Rightarrow>
                           (let a = \<lparr>a_year = yr, total_registrations = length registrations,
                                      total_unmatched = length unmatched,
                                      unmatched_records = unmatched,
                                      a_potential_matches = pm\<rparr>
                            in Inr (a, self\<lparr>unmatched_analysis :=
                                              (unmatched_analysis self)(yr \<mapsto> a)\<rparr>))))))"

section \<open>Auxiliary notions\<close>

text \<open>The registration frame that the year selects, for the two valid years.\<close>

definition registrations_for :: "data_processor \<Rightarrow> int \<Rightarrow> reg_row list" where
  "registrations_for dp year = (if year = 2023 then registrations_2023 dp else registrations_2024 dp)"

text \<open>The two lookup dictionaries that \<open>match_members\<close> builds from the survey.\<close>

definition name_lookup_of :: "survey_row list \<Rightarrow> (string \<rightharpoonup> string)" where
  "name_lookup_of survey = dict_zip (map s_name_clean survey) (map s_Status survey)"

definition email_lookup_of :: "survey_row list \<Rightarrow> (string \<rightharpoonup> string)" where
  "email_lookup_of survey = dict_zip (map s_email_clean survey) (map s_Status survey)"

text \<open>The name held in \<open>best_match\<close>, if any, is the \<open>name_clean\<close> of a survey row.\<close>

definition names_ok :: "survey_row list \<Rightarrow> search \<Rightarrow> bool" where
  "names_ok survey st = (case st of None \<Rightarrow> True | Some (m, s, t) \<Rightarrow> m \<in> s_name_clean ` set survey)"

text \<open>
  What the second pass may hold in its three variables: the name of a survey row, with
  the tag of one of the three strategies and a score that meets that strategy's
  threshold.
\<close>

definition search_ok :: "survey_row list \<Rightarrow> int \<Rightarrow> search \<Rightarrow> bool" where
  "search_ok survey t st =
     (case st of
        None \<Rightarrow> True
      | Some (m, s, ty) \<Rightarrow>
          m \<in> s_name_clean ` set survey \<and>
          ((ty = ''Partial_Name'' \<and> t \<le> s) \<or> (ty = ''Phonetic'' \<and> t + 10 \<le> s) \<or>
           (ty = ''Email_Username'' \<and> t \<le> s)))"

text \<open>
  An unmatched row, as \<open>match_members\<close> initialises it, and a matched row: it carries
  the status of a survey row, one of the given method tags, and a confidence of at least
  \<open>floor\<close>.
\<close>

definition unmatched_row :: "result_row \<Rightarrow> bool" where
  "unmatched_row r \<longleftrightarrow>
     retention_status r = ''Unknown'' \<and> match_type r = ''None'' \<and> match_confidence r = 0"

definition matched_row :: "survey_row list \<Rightarrow> string set \<Rightarrow> int \<Rightarrow> result_row \<Rightarrow> bool" where
  "matched_row survey types floor r \<longleftrightarrow>
     retention_status r \<in> s_Status ` set survey \<and> match_type r \<in> types \<and> floor \<le> match_confidence r"


text \<open>
  The best-scoring candidate among \<open>n\<close> candidates with scores \<open>sc 0\<close>, ...,
  \<open>sc (n - 1)\<close>, ties broken by first occurrence: no candidate scores higher, and
  every earlier candidate scores lower.
\<close>

definition first_best :: "(nat \<Rightarrow> int) \<Rightarrow> nat \<Rightarrow> nat \<Rightarrow> bool" where
  "first_best sc n i \<longleftrightarrow>
     i < n \<and> (\<forall>j\<in>set [0..<n]. sc j \<le> sc i) \<and> (\<forall>j\<in>set [0..<i]. sc j < sc i)"

text \<open>The first and the last row of a frame that satisfy a condition, by position.\<close>

definition first_row_with :: "('a \<Rightarrow> bool) \<Rightarrow> 'a list \<Rightarrow> nat \<Rightarrow> bool" where
  "first_row_with P rows i \<longleftrightarrow> i < length rows \<and> P (rows ! i) \<and> (\<forall>l\<in>set [0..<i]. \<not> P (rows ! l))"


text \<open>A candidate carries the name, the email and the status of a survey row.\<close>

definition from_survey :: "survey_row list \<Rightarrow> candidate \<Rightarrow> bool" where
  "from_survey survey c \<longleftrightarrow>
     (\<exists>s\<in>set survey. matched_name c = s_Name s \<and> matched_email c = s_Email_Address s \<and>
                      status c = s_Status s)"

text \<open>The display thresholds of the diagnostics, by kind of candidate.\<close>

definition display_ok :: "candidate \<Rightarrow> bool" where
  "display_ok c \<longleftrightarrow>
     (ctype c = ''partial_name'' \<and> 70 \<le> score c) \<or>
     (ctype c = ''email_domain'' \<and> 60 \<le> score c) \<or>
     (ctype c = ''name_variant'' \<and> 80 \<le> score c)"

text \<open>
  When each strategy of the second pass accepts, over the two scorers.  Partial name:
  the name has at least two tokens, and the survey name that scores best against its
  first and last token (the first one among equal scores) reaches the threshold and is
  not empty.
\<close>

definition partial_name_accepts :: "fuzz \<Rightarrow> survey_row list \<Rightarrow> int \<Rightarrow> string \<Rightarrow> nat \<Rightarrow> bool" where
  "partial_name_accepts fz survey t name i \<longleftrightarrow>
     2 \<le> length (split_ws name) \<and>
     first_best (\<lambda>j. WRatio fz (first_last (split_ws name)) (s_name_clean (survey ! j)))
       (length survey) i \<and>
     t \<le> WRatio fz (first_last (split_ws name)) (s_name_clean (survey ! i)) \<and>
     s_name_clean (survey ! i) \<noteq> []"

definition partial_name_rejects :: "fuzz \<Rightarrow> survey_row list \<Rightarrow> int \<Rightarrow> string \<Rightarrow> bool" where
  "partial_name_rejects fz survey t name \<longleftrightarrow>
     (\<forall>i\<in>set [0..<length survey]. \<not> partial_name_accepts fz survey t name i)"

text \<open>
  Phonetic: row \<open>i\<close> is the first survey row, in load order, such that the name and the
  survey name without their vowels are both longer than 3 characters and have a
  similarity of at least the threshold plus 10.
\<close>

definition phonetic_hit :: "fuzz \<Rightarrow> int \<Rightarrow> string \<Rightarrow> survey_row \<Rightarrow> bool" where
  "phonetic_hit fz t name s \<longleftrightarrow>
     3 < length (consonants name) \<and> 3 < length (consonants (s_name_clean s)) \<and>
     t + 10 \<le> ratio fz (consonants name) (consonants (s_name_clean s))"

definition phonetic_accepts :: "fuzz \<Rightarrow> survey_row list \<Rightarrow> int \<Rightarrow> string \<Rightarrow> nat \<Rightarrow> bool" where
  "phonetic_accepts fz survey t name i \<longleftrightarrow> first_row_with (phonetic_hit fz t name) survey i"

definition phonetic_rejects :: "fuzz \<Rightarrow> survey_row list \<Rightarrow> int \<Rightarrow> string \<Rightarrow> bool" where
  "phonetic_rejects fz survey t name \<longleftrightarrow> (\<forall>s\<in>set survey. \<not> phonetic_hit fz t name s)"

text \<open>
  Email user name: the email has an \<open>@\<close>, and row \<open>i\<close> is the first survey row, in load
  order, whose email has an \<open>@\<close> and whose user name has a similarity of at least the
  threshold to the user name of the email.
\<close>

definition username_hit :: "fuzz \<Rightarrow> int \<Rightarrow> string \<Rightarrow> survey_row \<Rightarrow> bool" where
  "username_hit fz t email s \<longleftrightarrow>
     CHR ''@'' \<in> set (s_email_clean s) \<and>
     t \<le> ratio fz (username_of email) (username_of (s_email_clean s))"

definition email_username_accepts :: "fuzz \<Rightarrow> survey_row list \<Rightarrow> int \<Rightarrow> string \<Rightarrow> nat \<Rightarrow> bool" where
  "email_username_accepts fz survey t email i \<longleftrightarrow>
     CHR ''@'' \<in> set email \<and> first_row_with (username_hit fz t email) survey i"

definition email_username_rejects :: "fuzz \<Rightarrow> survey_row list \<Rightarrow> int \<Rightarrow> string \<Rightarrow> bool" where
  "email_username_rejects fz survey t email \<longleftrightarrow>
     CHR ''@'' \<notin> set email \<or> (\<forall>s\<in>set survey. \<not> username_hit fz t email s)"

text \<open>A result row matched to a survey row, with a method and a confidence.\<close>

definition matched_as :: "result_row \<Rightarrow> survey_row \<Rightarrow> string \<Rightarrow> int \<Rightarrow> result_row" where
  "matched_as p s method confidence =
     p\<lparr>retention_status := s_Status s, match_type := method, match_confidence := confidence\<rparr>"

text \<open>
  The \<open>n\<close> best-scoring of a list of scored choices, by falling score: the first
  choice with the highest score, then the best-scoring of the other choices.
\<close>

fun best_pos :: "int list \<Rightarrow> nat" where
  "best_pos [] = 0"
| "best_pos (x # xs) = (if \<forall>y\<in>set xs. y \<le> x then 0 else Suc (best_pos xs))"

fun best_scoring :: "nat \<Rightarrow> ('a \<times> int) list \<Rightarrow> ('a \<times> int) list" where
  "best_scoring 0 xs = []"
| "best_scoring (Suc n) xs =
     (if xs = [] then []
      else (let i = best_pos (map snd xs)
            in xs ! i # best_scoring n (take i xs @ drop (Suc i) xs)))"

text \<open>
  The candidates that the diagnostics show for a query: of the \<open>n\<close> best-scoring
  survey names, those with a score of at least \<open>th\<close>, each with the first survey row
  of that name.
\<close>

definition shown :: "fuzz \<Rightarrow> survey_row list \<Rightarrow> string \<Rightarrow> nat \<Rightarrow> int \<Rightarrow> string \<Rightarrow> string option
    \<Rightarrow> candidate list" where
  "shown fz survey query n th tag v =
     map (\<lambda>(m, sc). mk_candidate tag sc v (hd (filter (\<lambda>s. s_name_clean s = m) survey)))
       (filter (\<lambda>(m, sc). th \<le> sc)
          (best_scoring n (map (\<lambda>s. (s_name_clean s, WRatio fz query (s_name_clean s))) survey)))"

text \<open>
  The search pattern for the domain of an email: the character \<open>@\<close> and the part of
  the email after its first \<open>@\<close> (up to the next one).
\<close>

definition domain_pattern :: "string \<Rightarrow> string" where
  "domain_pattern email = CHR ''@'' # split_on CHR ''@'' email ! 1"

text \<open>
  The email candidates: every survey row, in load order, whose email the search
  predicate of the domain pattern accepts and whose user name has a similarity of at
  least 60 to the user name of the email.
\<close>

definition email_shown :: "(string \<Rightarrow> bool) \<Rightarrow> fuzz \<Rightarrow> survey_row list \<Rightarrow> string \<Rightarrow> candidate list" where
  "email_shown found fz survey email =
     map (\<lambda>s. mk_candidate ''email_domain''
                 (ratio fz (username_of email) (username_of (s_email_clean s))) None s)
       (filter (\<lambda>s. found (s_email_clean s) \<and>
                     60 \<le> ratio fz (username_of email) (username_of (s_email_clean s)))
          survey)"

text \<open>
  The variants of a name of at least two tokens: the last and the first token; the
  first and the last token, when there are more than two; the name with its first token
  replaced by its nickname; the name with its first token, a nickname, replaced by the
  full name.
\<close>

definition name_variants :: "string \<Rightarrow> string list" where
  "name_variants name =
     (let parts = split_ws name; rest = join_sp (tl parts)
      in if length parts < 2 then []
         else [last parts @ '' '' @ hd parts]
              @ (if 2 < length parts then [hd parts @ '' '' @ last parts] else [])
              @ concat (map (\<lambda>(full, nick). if lower (hd parts) = full then [nick @ '' '' @ rest] else [])
                          nickname_map)
              @ concat (map (\<lambda>(full, nick). if lower (hd parts) = nick then [full @ '' '' @ rest] else [])
                          nickname_map))"

text \<open>
  All candidates of one unresolved registration, in the order of collection: the
  partial-name candidates (names of at least two tokens: of the 3 best-scoring survey
  names for the first and last token, those with a score of at least 70), the email
  candidates, and for every variant of the name, of the 2 best-scoring survey names,
  those with a score of at least 80.
\<close>

definition collected :: "(string \<Rightarrow> (string \<Rightarrow> bool) option) \<Rightarrow> fuzz \<Rightarrow> survey_row list \<Rightarrow> result_row
    \<Rightarrow> candidate list" where
  "collected re_compile fz survey person =
     (if 2 \<le> length (split_ws (name_clean person))
      then shown fz survey (first_last (split_ws (name_clean person))) 3 70 ''partial_name'' None
      else [])
     @ (if CHR ''@'' \<in> set (email_clean person)
        then (case re_compile (domain_pattern (email_clean person)) of
                Some found \<Rightarrow> email_shown found fz survey (email_clean person)
              | None \<Rightarrow> [])
        else [])
     @ concat (map (\<lambda>v. shown fz survey v 2 80 ''name_variant'' (Some v))
                 (name_variants (name_clean person)))"

section \<open>Sample data\<close>

text \<open>
  A scorer for the examples: identical non-empty strings score 100, all other pairs 0.
  The scorers of \<open>fuzzywuzzy\<close> give the same values on identical non-empty strings and
  on strings that have no character in common.
\<close>

definition sample_scorer :: "string \<Rightarrow> string \<Rightarrow> int" where
  "sample_scorer a b = (if a = b \<and> a \<noteq> [] then 100 else 0)"

definition sample_fuzz :: fuzz where
  "sample_fuzz = \<lparr>WRatio = sample_scorer, ratio = sample_scorer\<rparr>"

text \<open>A scorer given by a table of scores; a pair that is not listed scores as \<open>sample_scorer\<close>.\<close>

definition table_scorer :: "((string \<times> string) \<times> int) list \<Rightarrow> string \<Rightarrow> string \<Rightarrow> int" where
  "table_scorer tab a b = (case map_of tab (a, b) of Some s \<Rightarrow> s | None \<Rightarrow> sample_scorer a b)"

text \<open>A search predicate for the examples: the pattern occurs literally in the text.\<close>

fun occurs_in :: "string \<Rightarrow> string \<Rightarrow> bool" where
  "occurs_in p [] = (p = [])"
| "occurs_in p (c # cs) = (take (length p) (c # cs) = p \<or> occurs_in p cs)"

definition sample_re :: "string \<Rightarrow> (string \<Rightarrow> bool) option" where
  "sample_re p = Some (occurs_in p)"

definition survey_of :: "(string \<times> string \<times> string) list \<Rightarrow> survey_row list" where
  "survey_of rows =
     map (\<lambda>(n, e, st). \<lparr>s_Name = n, s_Email_Address = e, s_Status = st,
                          s_name_clean = [], s_email_clean = []\<rparr>) rows"

definition regs_of :: "(string \<times> string) list \<Rightarrow> reg_row list" where
  "regs_of rows = map (\<lambda>(n, e). \<lparr>Name = n, Email = e, name_clean = [], email_clean = []\<rparr>) rows"

text \<open>A processor loaded with the given survey and 2023 registrations, after preprocessing.\<close>

definition loaded :: "(string \<times> string \<times> string) list \<Rightarrow> (string \<times> string) list \<Rightarrow> data_processor" where
  "loaded survey regs =
     preprocess_data \<lparr>retention_survey = survey_of survey, registrations_2023 = regs_of regs,
                      registrations_2024 = []\<rparr>"

definition sample_dp :: data_processor where
  "sample_dp =
     loaded [(''Amy Lee'', ''amy@upei.ca'', ''Still in PEI''),
             (''William Turner'', ''wturner@upei.ca'', ''No longer in PEI'')]
            [(''Zed Quux'', ''amy@upei.ca''), (''Dr. Amy Lee'', [])]"

text \<open>A survey row and a registration that both lack an email; the names share no letter.\<close>

definition blank_email_dp :: data_processor where
  "blank_email_dp = loaded [(''Amy'', [], ''Still in PEI'')] [(''Zed'', [])]"

text \<open>A registration and a survey row whose names and email user names share no letter.\<close>

definition zero_dp :: data_processor where
  "zero_dp = loaded [(''Wright'', ''wright@upei.ca'', ''Still in PEI'')] [(''Flynn'', ''flynn@upei.ca'')]"

text \<open>Two survey rows with the same normalized name and the same email, and different statuses.\<close>

definition dup_dp :: data_processor where
  "dup_dp =
     loaded [(''Amy Lee'', ''amy@upei.ca'', ''Still in PEI''),
             (''AMY LEE'', ''amy@upei.ca'', ''No longer in PEI'')]
            [(''Amy Lee'', []), (''Amy B. Lee'', []), (''Zed'', ''amy@upei.ca'')]"

definition dup_fuzz :: fuzz where
  "dup_fuzz = \<lparr>WRatio = table_scorer [((''amy b lee'', ''amy lee''), 95)], ratio = sample_scorer\<rparr>"

text \<open>
  The first scenario of the specification: a middle initial defeats the exact lookup,
  and the names are similar enough for the fuzzy stage.
\<close>

definition smith_fuzz :: fuzz where
  "smith_fuzz =
     \<lparr>WRatio = table_scorer [((''robert j smith'', ''robert smith''), 95)],
      ratio = sample_scorer\<rparr>"

definition smith_dp :: data_processor where
  "smith_dp =
     loaded [(''Amy Lee'', ''amy@upei.ca'', ''No longer in PEI''),
             (''robert smith'', ''rsmith@school.edu'', ''Still in PEI'')]
            [(''Robert J. Smith'', ''r.smith@school.edu'')]"

text \<open>
  The second scenario of the specification, with scores of the size that
  \<open>fuzzywuzzy\<close> gives for these strings.
\<close>

definition turner_fuzz :: fuzz where
  "turner_fuzz =
     \<lparr>WRatio = table_scorer [((''bill turner'', ''william turner''), 80)],
      ratio = table_scorer [((''bll trnr'', ''wllm trnr''), 82)]\<rparr>"

definition turner_dp :: data_processor where
  "turner_dp = loaded [(''William Turner'', ''wturner@upei.ca'', ''Still in PEI'')] [(''Bill Turner'', [])]"

text \<open>
  A registration whose name without its vowels is close to that of a survey row, with
  the scores that \<open>fuzzywuzzy\<close> gives for these strings.
\<close>

definition mohammed_fuzz :: fuzz where
  "mohammed_fuzz =
     \<lparr>WRatio = table_scorer [((''mohammed'', ''muhamad''), 67)],
      ratio = table_scorer [((''mhmmd'', ''mhmd''), 89)]\<rparr>"

definition mohammed_dp :: data_processor where
  "mohammed_dp = loaded [(''Muhamad'', ''muhamad@upei.ca'', ''Still in PEI'')] [(''Mohammed'', [])]"

text \<open>
  The third scenario of the specification: the email user names are close, and the
  names share no letter.
\<close>

definition jsmith_fuzz :: fuzz where
  "jsmith_fuzz =
     \<lparr>WRatio = sample_scorer, ratio = table_scorer [((''jsmith'', ''j.smith''), 92)]\<rparr>"

definition jsmith_dp :: data_processor where
  "jsmith_dp =
     loaded [(''Wright'', ''j.smith@uni.edu'', ''No longer in PEI'')] [(''Flynn'', ''jsmith@uni.edu'')]"

text \<open>
  A nickname with a short family name, with the scores that \<open>fuzzywuzzy\<close> gives: no
  strategy of the second pass accepts at the default threshold 75.
\<close>

definition wu_fuzz :: fuzz where
  "wu_fuzz =
     \<lparr>WRatio = table_scorer [((''bill wu'', ''william wu''), 71), ((''wu bill'', ''william wu''), 67)],
      ratio = table_scorer [((''bll w'', ''wllm w''), 73)]\<rparr>"

definition wu_dp :: data_processor where
  "wu_dp = loaded [(''William Wu'', ''wwu@upei.ca'', ''Still in PEI'')] [(''Bill Wu'', [])]"

text \<open>
  A survey whose second row has the status \<open>Unknown\<close>; the first registration has
  the email of that row, the second its name.
\<close>

definition unknown_fuzz :: fuzz where
  "unknown_fuzz =
     \<lparr>WRatio = table_scorer [((''amy lee'', ''a lee''), 83), ((''a lee'', ''amy lee''), 83)],
      ratio = sample_scorer\<rparr>"

definition unknown_dp :: data_processor where
  "unknown_dp =
     loaded [(''Amy Lee'', ''a.lee@upei.ca'', ''Still in PEI''),
             (''A. Lee'', ''amy@upei.ca'', ''Unknown'')]
            [(''Amy B. Lee'', ''amy@upei.ca''), (''A Lee'', [])]"

text \<open>
  The second scenario of the specification with an email at the domain of the survey
  row, with the scores that \<open>fuzzywuzzy\<close> gives for these strings.
\<close>

definition bturner_fuzz :: fuzz where
  "bturner_fuzz =
     \<lparr>WRatio = table_scorer [((''bill turner'', ''william turner''), 80),
                              ((''turner bill'', ''william turner''), 76)],
      ratio = table_scorer [((''bll trnr'', ''wllm trnr''), 82), ((''bturner'', ''wturner''), 86)]\<rparr>"

definition bturner_dp :: data_processor where
  "bturner_dp =
     loaded [(''William Turner'', ''wturner@upei.ca'', ''Still in PEI'')]
            [(''Bill Turner'', ''bturner@upei.ca'')]"

text \<open>
  A registration and a survey row with close email user names at different domains,
  with the score that \<open>fuzzywuzzy\<close> gives; the names share no letter.
\<close>

definition lee_fuzz :: fuzz where
  "lee_fuzz = \<lparr>WRatio = sample_scorer, ratio = table_scorer [((''lee'', ''leo''), 67)]\<rparr>"

definition lee_dp :: data_processor where
  "lee_dp =
     loaded [(''Wright'', ''leo@hollandcollege.com'', ''Still in PEI'')] [(''Flynn'', ''lee@upei.ca'')]"

text \<open>
  The third scenario with a survey row that has no name (an empty \<open>Name\<close> cell).
\<close>

definition noname_dp :: data_processor where
  "noname_dp = loaded [([], ''j.smith@uni.edu'', ''Still in PEI'')] [(''Flynn'', ''jsmith@uni.edu'')]"

section \<open>Properties\<close>

subsection \<open>The first stage returns\<close>

lemma set_process_extract:
  "(m, s) \<in> set (process_extract scorer q choices n) \<Longrightarrow> m \<in> set choices \<and> s = scorer q m"
  unfolding process_extract_def by (auto dest!: in_set_takeD)

lemma find_name_matches_mem:
  "(m, s) \<in> set (find_name_matches fz name cands t) \<Longrightarrow> m \<in> set cands \<and> s = WRatio fz name m \<and> t \<le> s"
  unfolding find_name_matches_def by (auto dest: set_process_extract split: if_splits)

lemma iloc0_filter_ex:
  assumes "x \<in> set rows" "P x"
  shows "\<exists>y. iloc0 (filter P rows) = Inr y \<and> P y \<and> y \<in> set rows"
proof (cases "filter P rows")
  case Nil
  then show ?thesis using assms by (simp add: filter_empty_conv)
next
  case (Cons a list)
  then have "a \<in> set (filter P rows)" by simp
  then have "P a \<and> a \<in> set rows" by simp
  then show ?thesis by (simp add: iloc0_def Cons)
qed

lemma iloc0_name_ex:
  "m \<in> set (map s_name_clean survey) \<Longrightarrow>
     \<exists>y. iloc0 (filter (\<lambda>s. s_name_clean s = m) survey) = Inr y \<and> s_name_clean y = m \<and> y \<in> set survey"
  using iloc0_filter_ex[where P="\<lambda>s. s_name_clean s = m"] by auto

lemma match_row_total: "\<exists>r. match_row fz survey nl el row = Inr r"
proof -
  { fix best_match confidence rest
    assume "find_name_matches fz (name_clean row) (map s_name_clean survey) 80 = (best_match, confidence) # rest"
    then have "(best_match, confidence) \<in> set (find_name_matches fz (name_clean row) (map s_name_clean survey) 80)"
      by simp
    then have "best_match \<in> set (map s_name_clean survey)"
      using find_name_matches_mem by blast
    then have "\<exists>y. iloc0 (filter (\<lambda>s. s_name_clean s = best_match) survey) = Inr y"
      using iloc0_name_ex by blast }
  then show ?thesis
    unfolding match_row_def
    by (auto split: option.splits list.splits sum.splits prod.splits)
qed

lemma for_rows_Inr:
  "for_rows f xs = Inr ys \<Longrightarrow> length ys = length xs \<and> (\<forall>i<length xs. f (xs ! i) = Inr (ys ! i))"
proof (induction xs arbitrary: ys)
  case Nil then show ?case by simp
next
  case (Cons x xs)
  then show ?case
    by (auto split: sum.splits simp: nth_Cons split: nat.splits)
qed

lemma for_rows_total:
  "(\<And>x. x \<in> set xs \<Longrightarrow> \<exists>y. f x = Inr y) \<Longrightarrow> \<exists>ys. for_rows f xs = Inr ys"
proof (induction xs)
  case Nil then show ?case by simp
next
  case (Cons x xs)
  then obtain y where "f x = Inr y" by (meson list.set_intros(1))
  moreover from Cons obtain ys where "for_rows f xs = Inr ys" by (meson list.set_intros(2))
  ultimately show ?case by simp
qed

lemma for_rows_Inl:
  "for_rows f xs = Inl e \<Longrightarrow> \<exists>x\<in>set xs. f x = Inl e"
  by (induction xs) (auto split: sum.splits)

lemma match_frame_total: "\<exists>rs. match_frame fz survey regs = Inr rs"
  unfolding match_frame_def Let_def by (rule for_rows_total) (rule match_row_total)

lemma match_frame_rows:
  assumes "match_frame fz survey regs = Inr rs"
  shows "length rs = length regs"
    and "k < length regs \<Longrightarrow>
         match_row fz survey (dict_zip (map s_name_clean survey) (map s_Status survey))
           (dict_zip (map s_email_clean survey) (map s_Status survey)) (init_result (regs ! k)) = Inr (rs ! k)"
  using for_rows_Inr[OF assms[unfolded match_frame_def Let_def]] by auto

lemma match_members_valid:
  "year = 2023 \<or> year = 2024 \<Longrightarrow>
     match_members fz dp year = match_frame fz (retention_survey dp) (registrations_for dp year)"
  by (auto simp: match_members_def registrations_for_def)

lemma match_members_invalid:
  "year \<noteq> 2023 \<Longrightarrow> year \<noteq> 2024 \<Longrightarrow> match_members fz dp year = Inl ValueError"
  by (simp add: match_members_def)

subsection \<open>The second pass returns\<close>

lemma find_Some_mem: "find P xs = Some x \<Longrightarrow> x \<in> set xs \<and> P x"
  by (auto simp: find_Some_iff)

lemma partial_name_ok:
  "names_ok survey st \<Longrightarrow> names_ok survey (strategy_partial_name fz survey t name st)"
  unfolding strategy_partial_name_def Let_def names_ok_def
  by (auto split: option.splits prod.splits dest!: find_Some_mem set_process_extract)

lemma phonetic_ok:
  "names_ok survey st \<Longrightarrow> names_ok survey (strategy_phonetic fz survey t name st)"
  unfolding strategy_phonetic_def Let_def names_ok_def
  by (auto split: option.splits prod.splits dest!: find_Some_mem)

lemma email_username_ok:
  "names_ok survey st \<Longrightarrow>
     \<exists>st'. strategy_email_username fz survey t email st = Inr st' \<and> names_ok survey st'"
proof -
  { fix se
    assume "se \<in> set (map s_email_clean survey)"
    then obtain x where "x \<in> set survey" "s_email_clean x = se" by auto
    from iloc0_filter_ex[where P="\<lambda>s. s_email_clean s = se", OF this]
    have "\<exists>y. iloc0 (filter (\<lambda>s. s_email_clean s = se) survey) = Inr y \<and> y \<in> set survey" by blast }
  note * = this
  assume ok: "names_ok survey st"
  show ?thesis
  proof (cases "email \<noteq> [] \<and> CHR ''@'' \<in> set email \<and> \<not> truthy st")
    case False
    then show ?thesis using ok by (auto simp: strategy_email_username_def)
  next
    case True
    show ?thesis
    proof (cases "find (\<lambda>survey_email. CHR ''@'' \<in> set survey_email \<and>
                      ratio fz (username_of email) (username_of survey_email) \<ge> t)
                (map s_email_clean survey)")
      case None
      then show ?thesis using True ok by (simp add: strategy_email_username_def)
    next
      case (Some se)
      then have "se \<in> set (map s_email_clean survey)" using find_Some_mem by fastforce
      from *[OF this] obtain y where "iloc0 (filter (\<lambda>s. s_email_clean s = se) survey) = Inr y" "y \<in> set survey"
        by blast
      then show ?thesis using True Some by (simp add: strategy_email_username_def names_ok_def)
    qed
  qed
qed

lemma search_person_total:
  "\<exists>st. search_person fz survey t person = Inr st \<and> names_ok survey st"
  unfolding search_person_def
  by (rule email_username_ok, rule phonetic_ok, rule partial_name_ok) (simp add: names_ok_def)

lemma apply_best_total:
  assumes "names_ok survey st"
  shows "\<exists>r. apply_best survey st row = Inr r"
proof (cases st)
  case None
  then show ?thesis by (simp add: apply_best_def)
next
  case (Some a)
  obtain m s t where a: "a = (m, s, t)" by (cases a)
  with assms Some have "m \<in> set (map s_name_clean survey)" by (simp add: names_ok_def)
  from iloc0_name_ex[OF this] show ?thesis
    using Some a by (auto simp: apply_best_def)
qed

lemma improve_loop_char:
  assumes "distinct (map fst un)" and "\<forall>(i, p) \<in> set un. i < length rs"
  shows "\<exists>rs'. improve_loop fz sv t un rs = Inr rs' \<and> length rs' = length rs \<and>
           (\<forall>i<length rs.
              (i \<notin> fst ` set un \<longrightarrow> rs' ! i = rs ! i) \<and>
              (\<forall>p. (i, p) \<in> set un \<longrightarrow>
                 (\<exists>st. search_person fz sv t p = Inr st \<and> apply_best sv st (rs ! i) = Inr (rs' ! i))))"
  using assms
proof (induction un arbitrary: rs)
  case Nil
  then show ?case by simp
next
  case (Cons a un)
  obtain idx person where a: "a = (idx, person)" by (cases a)
  obtain st where st: "search_person fz sv t person = Inr st" "names_ok sv st"
    using search_person_total by blast
  obtain row where row: "apply_best sv st (rs ! idx) = Inr row"
    using apply_best_total[OF st(2)] by blast
  have idx: "idx < length rs" using Cons.prems(2) a by simp
  have d: "distinct (map fst un)" and nin: "idx \<notin> fst ` set un"
    using Cons.prems(1) a by auto
  have r: "\<forall>(i, p) \<in> set un. i < length (rs[idx := row])"
    using Cons.prems(2) by auto
  from Cons.IH[OF d r] obtain rs' where rs':
    "improve_loop fz sv t un (rs[idx := row]) = Inr rs'" "length rs' = length rs"
    "\<forall>i<length rs. (i \<notin> fst ` set un \<longrightarrow> rs' ! i = rs[idx := row] ! i) \<and>
       (\<forall>p. (i, p) \<in> set un \<longrightarrow>
          (\<exists>st. search_person fz sv t p = Inr st \<and> apply_best sv st (rs[idx := row] ! i) = Inr (rs' ! i)))"
    by auto
  have run: "improve_loop fz sv t (a # un) rs = Inr rs'"
    using a st(1) row idx rs'(1) by simp
  have "\<forall>i<length rs.
          (i \<notin> fst ` set (a # un) \<longrightarrow> rs' ! i = rs ! i) \<and>
          (\<forall>p. (i, p) \<in> set (a # un) \<longrightarrow>
             (\<exists>st. search_person fz sv t p = Inr st \<and> apply_best sv st (rs ! i) = Inr (rs' ! i)))"
  proof (intro allI impI conjI)
    fix i assume i: "i < length rs" and "i \<notin> fst ` set (a # un)"
    then have "i \<noteq> idx" "i \<notin> fst ` set un" using a by auto
    then show "rs' ! i = rs ! i" using rs'(3) i by simp
  next
    fix i p assume i: "i < length rs" and mem: "(i, p) \<in> set (a # un)"
    show "\<exists>st. search_person fz sv t p = Inr st \<and> apply_best sv st (rs ! i) = Inr (rs' ! i)"
    proof (cases "(i, p) = a")
      case True
      then have ip: "i = idx" "p = person" using a by auto
      have "rs' ! idx = rs[idx := row] ! idx" using rs'(3) idx nin by blast
      then have "rs' ! idx = row" using idx by simp
      then show ?thesis using ip st(1) row by auto
    next
      case False
      then have m: "(i, p) \<in> set un" using mem by simp
      then have "i \<noteq> idx" using nin by force
      then show ?thesis using rs'(3) i m by auto
    qed
  qed
  then show ?case using run rs'(2) by blast
qed

lemma unmatched_of_set:
  "(i, p) \<in> set (unmatched_of rs) \<longleftrightarrow> i < length rs \<and> p = rs ! i \<and> retention_status p = ''Unknown''"
  by (auto simp: unmatched_of_def in_set_enumerate_eq)

lemma unmatched_of_in_range: "\<forall>(i, p) \<in> set (unmatched_of rs). i < length rs"
  by (auto simp: unmatched_of_set)

lemma unmatched_of_distinct: "distinct (map fst (unmatched_of rs))"
  unfolding unmatched_of_def by (rule distinct_map_filter) simp

lemma improve_unmatched:
  "\<exists>rs'. improve_loop fz sv t (unmatched_of rs) rs = Inr rs' \<and> length rs' = length rs \<and>
     (\<forall>i<length rs.
        (retention_status (rs ! i) \<noteq> ''Unknown'' \<longrightarrow> rs' ! i = rs ! i) \<and>
        (retention_status (rs ! i) = ''Unknown'' \<longrightarrow>
           (\<exists>st. search_person fz sv t (rs ! i) = Inr st \<and> apply_best sv st (rs ! i) = Inr (rs' ! i))))"
proof -
  from improve_loop_char[OF unmatched_of_distinct unmatched_of_in_range, of fz sv t rs]
  obtain rs' where rs': "improve_loop fz sv t (unmatched_of rs) rs = Inr rs'" "length rs' = length rs"
    "\<forall>i<length rs. (i \<notin> fst ` set (unmatched_of rs) \<longrightarrow> rs' ! i = rs ! i) \<and>
       (\<forall>p. (i, p) \<in> set (unmatched_of rs) \<longrightarrow>
          (\<exists>st. search_person fz sv t p = Inr st \<and> apply_best sv st (rs ! i) = Inr (rs' ! i)))"
    by blast
  have "\<forall>i<length rs.
        (retention_status (rs ! i) \<noteq> ''Unknown'' \<longrightarrow> rs' ! i = rs ! i) \<and>
        (retention_status (rs ! i) = ''Unknown'' \<longrightarrow>
           (\<exists>st. search_person fz sv t (rs ! i) = Inr st \<and> apply_best sv st (rs ! i) = Inr (rs' ! i)))"
  proof (intro allI impI conjI)
    fix i assume i: "i < length rs" and "retention_status (rs ! i) \<noteq> ''Unknown''"
    then have "i \<notin> fst ` set (unmatched_of rs)" by (force simp: unmatched_of_set)
    then show "rs' ! i = rs ! i" using rs'(3) i by blast
  next
    fix i assume i: "i < length rs" and "retention_status (rs ! i) = ''Unknown''"
    then have "(i, rs ! i) \<in> set (unmatched_of rs)" by (simp add: unmatched_of_set)
    then show "\<exists>st. search_person fz sv t (rs ! i) = Inr st \<and> apply_best sv st (rs ! i) = Inr (rs' ! i)"
      using rs'(3) i by blast
  qed
  then show ?thesis using rs'(1,2) by blast
qed

lemma improved_matching_valid:
  assumes "year = 2023 \<or> year = 2024"
  shows "\<exists>rs rs'. match_members fz dp year = Inr rs \<and> improved_matching fz dp year t = Inr rs' \<and>
           length rs = length (registrations_for dp year) \<and> length rs' = length rs \<and>
           (\<forall>i<length rs.
              (retention_status (rs ! i) \<noteq> ''Unknown'' \<longrightarrow> rs' ! i = rs ! i) \<and>
              (retention_status (rs ! i) = ''Unknown'' \<longrightarrow>
                 (\<exists>st. search_person fz (retention_survey dp) t (rs ! i) = Inr st \<and>
                       apply_best (retention_survey dp) st (rs ! i) = Inr (rs' ! i))))"
proof -
  obtain rs where rs: "match_members fz dp year = Inr rs"
    using match_frame_total match_members_valid[OF assms] by metis
  then have len: "length rs = length (registrations_for dp year)"
    using match_frame_rows(1) match_members_valid[OF assms] by metis
  from improve_unmatched[of fz "retention_survey dp" t rs] rs len show ?thesis
    unfolding improved_matching_def by auto
qed

lemma improved_matching_invalid:
  "year \<noteq> 2023 \<Longrightarrow> year \<noteq> 2024 \<Longrightarrow> improved_matching fz dp year t = Inl ValueError"
  by (simp add: improved_matching_def match_members_invalid)

subsection \<open>The diagnostics raise no lookup error\<close>

lemma name_candidates_total: "\<exists>cs. name_candidates fz sv q n th t v = Inr cs"
  unfolding name_candidates_def
proof (rule for_rows_total)
  fix x assume "x \<in> set (filter (\<lambda>(match, sc). th \<le> sc) (process_extract (WRatio fz) q (map s_name_clean sv) n))"
  then have mem: "x \<in> set (process_extract (WRatio fz) q (map s_name_clean sv) n)" by simp
  obtain m sc where x: "x = (m, sc)" by (cases x)
  with mem have "(m, sc) \<in> set (process_extract (WRatio fz) q (map s_name_clean sv) n)" by simp
  then have "m \<in> set (map s_name_clean sv)" using set_process_extract by blast
  from iloc0_name_ex[OF this] show "\<exists>y. (case x of (match, sc) \<Rightarrow>
            case iloc0 (filter (\<lambda>s. s_name_clean s = match) sv) of Inl e \<Rightarrow> Inl e
            | Inr survey_row \<Rightarrow> Inr (mk_candidate t sc v survey_row)) = Inr y"
    using x by auto
qed

lemma partial_candidates_total: "\<exists>cs. partial_candidates fz sv name = Inr cs"
  unfolding partial_candidates_def using name_candidates_total by auto

lemma variant_candidates_total: "\<exists>cs. variant_candidates fz sv name = Inr cs"
proof -
  have "\<exists>css. for_rows (\<lambda>variant. name_candidates fz sv variant 2 80 ''name_variant'' (Some variant))
                (generate_name_variants name) = Inr css"
    by (rule for_rows_total) (rule name_candidates_total)
  then show ?thesis unfolding variant_candidates_def by auto
qed

lemma email_candidates_error: "email_candidates re fz sv email = Inl e \<Longrightarrow> e = ReError"
  unfolding email_candidates_def Let_def by (auto split: if_splits option.splits)

lemma potential_for_error: "potential_for re fz sv person = Inl e \<Longrightarrow> e = ReError"
  using partial_candidates_total[of fz sv "name_clean person"]
        variant_candidates_total[of fz sv "name_clean person"]
  unfolding potential_for_def Let_def
  by (auto split: sum.splits if_splits dest: email_candidates_error)

lemma find_potential_matches_error: "find_potential_matches re fz sv un = Inl e \<Longrightarrow> e = ReError"
  unfolding find_potential_matches_def
  by (auto split: sum.splits dest!: for_rows_Inl potential_for_error)

lemma analyze_valid_error:
  assumes "year = 2023 \<or> year = 2024"
  shows "analyze_unmatched_records re fz self year \<noteq> Inl ValueError"
proof -
  obtain rs where rs: "match_members fz (data_processor self) year = Inr rs"
    using match_frame_total match_members_valid[OF assms] by metis
  show ?thesis using assms rs
    unfolding analyze_unmatched_records_def Let_def
    by (auto split: sum.splits if_splits dest: find_potential_matches_error)
qed

lemma analyze_invalid:
  "year \<noteq> 2023 \<Longrightarrow> year \<noteq> 2024 \<Longrightarrow> analyze_unmatched_records re fz self year = Inl ValueError"
  by (simp add: analyze_unmatched_records_def)

subsection \<open>Dictionary lookups\<close>

lemma fold_upd_filter:
  "fold (\<lambda>(k, v) m. m(k \<mapsto> v)) (zip (map f xs) (map g xs)) m0 k =
     (case filter (\<lambda>x. f x = k) xs of [] \<Rightarrow> m0 k | y # ys \<Rightarrow> Some (g (last (y # ys))))"
proof (induction xs arbitrary: m0)
  case Nil
  then show ?case by simp
next
  case (Cons x xs)
  show ?case
  proof (cases "filter (\<lambda>x. f x = k) xs")
    case Nil
    then show ?thesis using Cons.IH[of "m0(f x \<mapsto> g x)"] by auto
  next
    case (Cons y ys)
    then show ?thesis using Cons.IH[of "m0(f x \<mapsto> g x)"] by auto
  qed
qed

lemma dict_zip_lookup:
  "dict_zip (map f xs) (map g xs) k =
     (case filter (\<lambda>x. f x = k) xs of [] \<Rightarrow> None | y # ys \<Rightarrow> Some (g (last (y # ys))))"
  unfolding dict_zip_def by (simp add: fold_upd_filter)

lemma dict_zip_Some:
  "(\<exists>x\<in>set xs. f x = k) \<Longrightarrow>
     dict_zip (map f xs) (map g xs) k = Some (g (last (filter (\<lambda>x. f x = k) xs)))"
  by (cases "filter (\<lambda>x. f x = k) xs") (auto simp: dict_zip_lookup filter_empty_conv)

lemma dict_zip_None:
  "(\<forall>x\<in>set xs. f x \<noteq> k) \<Longrightarrow> dict_zip (map f xs) (map g xs) k = None"
  by (cases "filter (\<lambda>x. f x = k) xs") (auto simp: dict_zip_lookup filter_empty_conv dest!: arg_cong[where f=set])

lemma dict_zip_range:
  "dict_zip (map f xs) (map g xs) k = Some v \<Longrightarrow> \<exists>x\<in>set xs. f x = k \<and> v = g x"
proof (cases "filter (\<lambda>x. f x = k) xs")
  case Nil
  assume "dict_zip (map f xs) (map g xs) k = Some v"
  with Nil show ?thesis by (simp add: dict_zip_lookup)
next
  case (Cons y ys)
  assume a: "dict_zip (map f xs) (map g xs) k = Some v"
  have "last (y # ys) \<in> set (filter (\<lambda>x. f x = k) xs)"
    unfolding Cons by (rule last_in_set) simp
  then have "last (y # ys) \<in> set xs \<and> f (last (y # ys)) = k" by simp
  moreover have "v = g (last (y # ys))" using a Cons by (simp add: dict_zip_lookup)
  ultimately show ?thesis by blast
qed

subsection \<open>The rows of the first stage\<close>

lemma match_members_row:
  assumes "year = 2023 \<or> year = 2024" and "k < length (registrations_for dp year)"
  shows "\<exists>rs. match_members fz dp year = Inr rs \<and> length rs = length (registrations_for dp year) \<and>
           match_row fz (retention_survey dp) (name_lookup_of (retention_survey dp))
             (email_lookup_of (retention_survey dp)) (init_result (registrations_for dp year ! k))
           = Inr (rs ! k)"
proof -
  obtain rs where rs: "match_frame fz (retention_survey dp) (registrations_for dp year) = Inr rs"
    using match_frame_total by blast
  from match_frame_rows[OF rs] assms(2) show ?thesis
    using rs match_members_valid[OF assms(1), of fz dp]
    by (simp add: name_lookup_of_def email_lookup_of_def)
qed

lemma match_row_email:
  assumes "email_clean row \<noteq> []" and "\<exists>s\<in>set survey. s_email_clean s = email_clean row"
  shows "match_row fz survey (name_lookup_of survey) (email_lookup_of survey) row =
           Inr (row\<lparr>retention_status :=
                       s_Status (last (filter (\<lambda>s. s_email_clean s = email_clean row) survey)),
                    match_type := ''Email'', match_confidence := 100\<rparr>)"
  using assms dict_zip_Some[of survey s_email_clean "email_clean row" s_Status]
  by (simp add: match_row_def email_lookup_of_def)

lemma email_lookup_miss:
  "email_clean row = [] \<or> (\<forall>s\<in>set survey. s_email_clean s \<noteq> email_clean row) \<Longrightarrow>
     (if email_clean row \<noteq> [] then email_lookup_of survey (email_clean row) else None) = None"
  using dict_zip_None[of survey s_email_clean "email_clean row" s_Status]
  by (auto simp: email_lookup_of_def)

lemma name_lookup_miss:
  "name_clean row = [] \<or> (\<forall>s\<in>set survey. s_name_clean s \<noteq> name_clean row) \<Longrightarrow>
     (if name_clean row \<noteq> [] then name_lookup_of survey (name_clean row) else None) = None"
  using dict_zip_None[of survey s_name_clean "name_clean row" s_Status]
  by (auto simp: name_lookup_of_def)

lemma match_row_name:
  assumes "email_clean row = [] \<or> (\<forall>s\<in>set survey. s_email_clean s \<noteq> email_clean row)"
    and "name_clean row \<noteq> []" and "\<exists>s\<in>set survey. s_name_clean s = name_clean row"
  shows "match_row fz survey (name_lookup_of survey) (email_lookup_of survey) row =
           Inr (row\<lparr>retention_status :=
                       s_Status (last (filter (\<lambda>s. s_name_clean s = name_clean row) survey)),
                    match_type := ''Name_Exact'', match_confidence := 100\<rparr>)"
  using email_lookup_miss[OF assms(1)] assms(2,3)
    dict_zip_Some[of survey s_name_clean "name_clean row" s_Status]
  by (simp add: match_row_def name_lookup_of_def)

lemma match_row_fuzzy:
  assumes "email_clean row = [] \<or> (\<forall>s\<in>set survey. s_email_clean s \<noteq> email_clean row)"
    and "name_clean row = [] \<or> (\<forall>s\<in>set survey. s_name_clean s \<noteq> name_clean row)"
  shows "match_row fz survey (name_lookup_of survey) (email_lookup_of survey) row =
     (if name_clean row \<noteq> [] then
        (case find_name_matches fz (name_clean row) (map s_name_clean survey) 80 of
           [] \<Rightarrow> Inr row
         | (best_match, confidence) # _ \<Rightarrow>
             if confidence \<ge> 85 then
               (case iloc0 (filter (\<lambda>s. s_name_clean s = best_match) survey) of
                  Inl e \<Rightarrow> Inl e
                | Inr match \<Rightarrow>
                    Inr (row\<lparr>retention_status := s_Status match, match_type := ''Name_Fuzzy'',
                            match_confidence := confidence\<rparr>))
             else Inr row)
      else Inr row)"
  using email_lookup_miss[OF assms(1)] name_lookup_miss[OF assms(2)]
  by (simp add: match_row_def)

lemma iloc0_Inr_mem:
  assumes "iloc0 (filter P xs) = Inr y"
  shows "y \<in> set xs \<and> P y"
proof (cases "filter P xs")
  case Nil
  with assms show ?thesis by (simp add: iloc0_def)
next
  case (Cons a as)
  with assms have "y = a" by (simp add: iloc0_def)
  then have "y \<in> set (filter P xs)" using Cons by simp
  then show ?thesis by simp
qed

lemma match_row_shape:
  assumes m: "match_row fz survey (name_lookup_of survey) (email_lookup_of survey) row = Inr r"
    and u: "unmatched_row row"
  shows "unmatched_row r \<or> matched_row survey {''Email'', ''Name_Exact'', ''Name_Fuzzy''} 85 r"
proof (cases "if email_clean row \<noteq> [] then email_lookup_of survey (email_clean row) else None")
  case (Some v)
  then have "v \<in> s_Status ` set survey"
    unfolding email_lookup_of_def by (auto split: if_splits dest: dict_zip_range)
  moreover have "r = row\<lparr>retention_status := v, match_type := ''Email'', match_confidence := 100\<rparr>"
    using m Some by (simp add: match_row_def)
  ultimately show ?thesis by (simp add: matched_row_def)
next
  case eNone: None
  show ?thesis
  proof (cases "if name_clean row \<noteq> [] then name_lookup_of survey (name_clean row) else None")
    case (Some v)
    then have "v \<in> s_Status ` set survey"
      unfolding name_lookup_of_def by (auto split: if_splits dest: dict_zip_range)
    moreover have "r = row\<lparr>retention_status := v, match_type := ''Name_Exact'',
                           match_confidence := 100\<rparr>"
      using m Some eNone by (simp add: match_row_def)
    ultimately show ?thesis by (simp add: matched_row_def)
  next
    case nNone: None
    show ?thesis
    proof (cases "name_clean row \<noteq> []")
      case False
      then have "r = row" using m eNone nNone by (simp add: match_row_def)
      then show ?thesis using u by simp
    next
      case True
      show ?thesis
      proof (cases "find_name_matches fz (name_clean row) (map s_name_clean survey) 80")
        case Nil
        then have "r = row" using m eNone nNone True by (simp add: match_row_def)
        then show ?thesis using u by simp
      next
        case (Cons a rest)
        obtain best_match confidence where a: "a = (best_match, confidence)" by (cases a)
        show ?thesis
        proof (cases "confidence \<ge> 85")
          case False
          then have "r = row" using m eNone nNone True Cons a by (simp add: match_row_def)
          then show ?thesis using u by simp
        next
          case c: True
          then obtain y where y: "iloc0 (filter (\<lambda>s. s_name_clean s = best_match) survey) = Inr y"
            and r: "r = row\<lparr>retention_status := s_Status y, match_type := ''Name_Fuzzy'',
                             match_confidence := confidence\<rparr>"
            using m eNone nNone True Cons a by (auto simp: match_row_def split: sum.splits)
          from iloc0_Inr_mem[OF y] have "y \<in> set survey" by simp
          then show ?thesis using r c by (simp add: matched_row_def)
        qed
      qed
    qed
  qed
qed

lemma init_result_unmatched: "unmatched_row (init_result r)"
  by (simp add: unmatched_row_def init_result_def)

lemma match_members_shape:
  assumes "year = 2023 \<or> year = 2024" and "match_members fz dp year = Inr rs" and "k < length rs"
  shows "unmatched_row (rs ! k) \<or>
         matched_row (retention_survey dp) {''Email'', ''Name_Exact'', ''Name_Fuzzy''} 85 (rs ! k)"
proof -
  from assms(2) match_members_valid[OF assms(1), of fz dp]
  have mf: "match_frame fz (retention_survey dp) (registrations_for dp year) = Inr rs" by simp
  from match_frame_rows[OF mf] assms(3)
  have "match_row fz (retention_survey dp) (name_lookup_of (retention_survey dp))
             (email_lookup_of (retention_survey dp)) (init_result (registrations_for dp year ! k))
           = Inr (rs ! k)"
    by (simp add: name_lookup_of_def email_lookup_of_def)
  from match_row_shape[OF this init_result_unmatched] show ?thesis .
qed

subsection \<open>The head of \<open>process.extract\<close>\<close>

lemma hd_insort_key:
  "hd (insort_key f x ys) = (if ys = [] \<or> f x \<le> f (hd ys) then x else hd ys)"
  by (cases ys) auto

lemma sort_key_Nil_iff: "sort_key f xs = [] \<longleftrightarrow> xs = []"
  using length_sort[of f xs] by (metis length_0_conv)

lemma sort_key_hd:
  assumes "i < length xs" and "\<forall>j<length xs. f (xs ! i) \<le> f (xs ! j)"
    and "\<forall>j<i. f (xs ! i) < f (xs ! j)"
  shows "hd (sort_key f xs) = xs ! i"
  using assms
proof (induction xs arbitrary: i)
  case Nil
  then show ?case by simp
next
  case (Cons x xs)
  show ?case
  proof (cases i)
    case 0
    have "xs \<noteq> [] \<Longrightarrow> f x \<le> f (hd (sort_key f xs))"
    proof -
      assume ne: "xs \<noteq> []"
      then have "sort_key f xs \<noteq> []" by (simp add: sort_key_Nil_iff)
      then have "hd (sort_key f xs) \<in> set (sort_key f xs)" by (rule hd_in_set)
      then have "hd (sort_key f xs) \<in> set xs" by simp
      then obtain j where "j < length xs" "hd (sort_key f xs) = xs ! j"
        by (metis in_set_conv_nth)
      then show ?thesis using Cons.prems(2) 0 by (metis length_Cons not_less_eq nth_Cons_0 nth_Cons_Suc)
    qed
    then show ?thesis using 0 by (auto simp: hd_insort_key sort_key_Nil_iff)
  next
    case (Suc i')
    have i': "i' < length xs" using Cons.prems(1) Suc by simp
    have a: "\<forall>j<length xs. f (xs ! i') \<le> f (xs ! j)"
      using Cons.prems(2) Suc by (metis length_Cons not_less_eq nth_Cons_Suc)
    have b: "\<forall>j<i'. f (xs ! i') < f (xs ! j)"
      using Cons.prems(3) Suc by (metis not_less_eq nth_Cons_Suc)
    have hd: "hd (sort_key f xs) = xs ! i'" by (rule Cons.IH[OF i' a b])
    have "f (xs ! i') < f x" using Cons.prems(3) Suc by (metis nth_Cons_0 nth_Cons_Suc zero_less_Suc)
    moreover have "xs \<noteq> []" using i' by auto
    ultimately show ?thesis using hd Suc by (auto simp: hd_insort_key sort_key_Nil_iff)
  qed
qed

lemma process_extract_hd:
  assumes "first_best (\<lambda>j. scorer q (choices ! j)) (length choices) i" and "0 < n"
  shows "\<exists>rest. process_extract scorer q choices n = (choices ! i, scorer q (choices ! i)) # rest"
proof -
  let ?ps = "map (\<lambda>c. (c, scorer q c)) choices"
  let ?f = "\<lambda>(c, s). - s :: int"
  have i: "i < length ?ps" using assms(1) by (simp add: first_best_def)
  have a: "\<forall>j<length ?ps. ?f (?ps ! i) \<le> ?f (?ps ! j)"
    using assms(1) by (simp add: first_best_def)
  have b: "\<forall>j<i. ?f (?ps ! i) < ?f (?ps ! j)"
    using assms(1) by (simp add: first_best_def)
  have hd: "hd (sort_key ?f ?ps) = ?ps ! i" by (rule sort_key_hd[OF i a b])
  have ne: "sort_key ?f ?ps \<noteq> []" using i by (auto simp: sort_key_Nil_iff)
  then obtain y ys where ys: "sort_key ?f ?ps = y # ys" by (cases "sort_key ?f ?ps") auto
  with hd have "y = ?ps ! i" by simp
  then have "y = (choices ! i, scorer q (choices ! i))" using i by simp
  moreover obtain n' where "n = Suc n'" using assms(2) by (cases n) auto
  ultimately show ?thesis unfolding process_extract_def ys by simp
qed

lemma sort_key_hd_least:
  assumes "sort_key f xs = y # ys" and "x \<in> set xs"
  shows "f y \<le> f x"
proof -
  have "sorted (map f (sort_key f xs))" by (rule sorted_sort_key)
  moreover have "x \<in> set (sort_key f xs)" using assms(2) by simp
  ultimately show ?thesis unfolding assms(1) by auto
qed

text \<open>When some choice reaches the threshold, the head of the choices by falling score does.\<close>

lemma process_extract_find:
  assumes "find (\<lambda>(m, s). t \<le> s) (process_extract scorer q choices n) = Some (m, s)"
  shows "\<exists>rest. process_extract scorer q choices n = (m, s) # rest"
proof -
  let ?ps = "map (\<lambda>c. (c, scorer q c)) choices"
  let ?f = "\<lambda>(c, s). - s :: int"
  from assms have mem: "(m, s) \<in> set (process_extract scorer q choices n)" and ts: "t \<le> s"
    using find_Some_mem by fastforce+
  then obtain y ys where ys: "process_extract scorer q choices n = y # ys"
    by (cases "process_extract scorer q choices n") auto
  obtain m' s' where y: "y = (m', s')" by (cases y)
  have "(m, s) \<in> set (sort_key ?f ?ps)" using mem unfolding process_extract_def by (auto dest: in_set_takeD)
  then have in_ps: "(m, s) \<in> set ?ps" by simp
  obtain zs where zs: "sort_key ?f ?ps = y # zs"
    using ys unfolding process_extract_def by (cases "sort_key ?f ?ps"; cases n) auto
  from sort_key_hd_least[OF zs in_ps] y have "s \<le> s'" by simp
  then have "t \<le> s'" using ts by simp
  then have "find (\<lambda>(m, s). t \<le> s) (process_extract scorer q choices n) = Some (m', s')"
    unfolding ys y by simp
  with assms have "(m, s) = (m', s')" by simp
  then show ?thesis using ys y by simp
qed

subsection \<open>The fuzzy stage\<close>

lemma smith_dp_rows [code]:
  "smith_dp =
     \<lparr>retention_survey =
        [\<lparr>s_Name = ''Amy Lee'', s_Email_Address = ''amy@upei.ca'', s_Status = ''No longer in PEI'',
          s_name_clean = ''amy lee'', s_email_clean = ''amy@upei.ca''\<rparr>,
         \<lparr>s_Name = ''robert smith'', s_Email_Address = ''rsmith@school.edu'',
          s_Status = ''Still in PEI'', s_name_clean = ''robert smith'',
          s_email_clean = ''rsmith@school.edu''\<rparr>],
      registrations_2023 =
        [\<lparr>Name = ''Robert J. Smith'', Email = ''r.smith@school.edu'',
          name_clean = ''robert j smith'', email_clean = ''r.smith@school.edu''\<rparr>],
      registrations_2024 = []\<rparr>"
  by code_simp

lemma blank_email_dp_rows [code]:
  "blank_email_dp =
     \<lparr>retention_survey =
        [\<lparr>s_Name = ''Amy'', s_Email_Address = [], s_Status = ''Still in PEI'',
          s_name_clean = ''amy'', s_email_clean = []\<rparr>],
      registrations_2023 = [\<lparr>Name = ''Zed'', Email = [], name_clean = ''zed'', email_clean = []\<rparr>],
      registrations_2024 = []\<rparr>"
  by code_simp

lemma result_fields:
  "retention_status (r\<lparr>retention_status := a, match_type := b, match_confidence := c\<rparr>) = a"
  "match_type (r\<lparr>retention_status := a, match_type := b, match_confidence := c\<rparr>) = b"
  "match_confidence (r\<lparr>retention_status := a, match_type := b, match_confidence := c\<rparr>) = c"
  by simp_all

lemma first_best_unique_name:
  assumes fb: "first_best (\<lambda>j. sc (s_name_clean (survey ! j))) (length survey) i"
  shows "iloc0 (filter (\<lambda>s. s_name_clean s = s_name_clean (survey ! i)) survey) = Inr (survey ! i)"
proof -
  let ?P = "\<lambda>s. s_name_clean s = s_name_clean (survey ! i)"
  have i: "i < length survey" using fb by (simp add: first_best_def)
  have before: "\<forall>j<i. \<not> ?P (survey ! j)"
  proof (intro allI impI)
    fix j assume "j < i"
    then have "sc (s_name_clean (survey ! j)) < sc (s_name_clean (survey ! i))"
      using fb by (simp add: first_best_def)
    then show "\<not> ?P (survey ! j)" by auto
  qed
  have "filter ?P (take i survey) = []"
    using before i by (auto simp: filter_empty_conv in_set_conv_nth)
  moreover have "survey = take i survey @ survey ! i # drop (Suc i) survey"
    using i by (simp add: id_take_nth_drop)
  ultimately have "filter ?P survey = survey ! i # filter ?P (drop (Suc i) survey)"
    by (metis (mono_tags, lifting) append_Nil filter.simps(2) filter_append)
  then show ?thesis by (simp add: iloc0_def)
qed

lemma fuzzy_adopts:
  assumes e: "email_clean row = [] \<or> (\<forall>s\<in>set survey. s_email_clean s \<noteq> email_clean row)"
    and n: "name_clean row = [] \<or> (\<forall>s\<in>set survey. s_name_clean s \<noteq> name_clean row)"
    and ne: "name_clean row \<noteq> []"
    and fb: "first_best (\<lambda>j. WRatio fz (name_clean row) (s_name_clean (survey ! j))) (length survey) i"
    and sc: "85 \<le> WRatio fz (name_clean row) (s_name_clean (survey ! i))"
  shows "match_row fz survey (name_lookup_of survey) (email_lookup_of survey) row =
           Inr (row\<lparr>retention_status := s_Status (survey ! i), match_type := ''Name_Fuzzy'',
                    match_confidence := WRatio fz (name_clean row) (s_name_clean (survey ! i))\<rparr>)"
proof -
  let ?names = "map s_name_clean survey"
  let ?sc = "WRatio fz (name_clean row) (s_name_clean (survey ! i))"
  have i: "i < length survey" using fb by (simp add: first_best_def)
  have fb': "first_best (\<lambda>j. WRatio fz (name_clean row) (?names ! j)) (length ?names) i"
    using fb by (simp add: first_best_def)
  from process_extract_hd[of "WRatio fz" "name_clean row" ?names i 5, OF fb'] obtain rest where
    "process_extract (WRatio fz) (name_clean row) ?names 5 = (?names ! i, WRatio fz (name_clean row) (?names ! i)) # rest"
    by auto
  then have pe: "process_extract (WRatio fz) (name_clean row) ?names 5 = (s_name_clean (survey ! i), ?sc) # rest"
    using i by simp
  have "?names \<noteq> []" using i by auto
  then have fnm: "find_name_matches fz (name_clean row) ?names 80 =
      (s_name_clean (survey ! i), ?sc) # filter (\<lambda>(m, s). 80 \<le> s) rest"
    using ne sc pe by (simp add: find_name_matches_def)
  have il: "iloc0 (filter (\<lambda>s. s_name_clean s = s_name_clean (survey ! i)) survey) = Inr (survey ! i)"
    by (rule first_best_unique_name[where sc="WRatio fz (name_clean row)"]) (rule fb)
  show ?thesis
    unfolding match_row_fuzzy[OF e n] using ne fnm sc il by simp
qed

lemma fuzzy_rejects:
  assumes e: "email_clean row = [] \<or> (\<forall>s\<in>set survey. s_email_clean s \<noteq> email_clean row)"
    and n: "name_clean row = [] \<or> (\<forall>s\<in>set survey. s_name_clean s \<noteq> name_clean row)"
    and low: "\<forall>j<length survey. WRatio fz (name_clean row) (s_name_clean (survey ! j)) < 85"
  shows "match_row fz survey (name_lookup_of survey) (email_lookup_of survey) row = Inr row"
proof (cases "find_name_matches fz (name_clean row) (map s_name_clean survey) 80")
  case Nil
  then show ?thesis unfolding match_row_fuzzy[OF e n] by simp
next
  case (Cons a rest)
  obtain m c where a: "a = (m, c)" by (cases a)
  then have "(m, c) \<in> set (find_name_matches fz (name_clean row) (map s_name_clean survey) 80)"
    using Cons by simp
  from find_name_matches_mem[OF this] have "m \<in> set (map s_name_clean survey)"
    and c: "c = WRatio fz (name_clean row) m" by simp_all
  then obtain j where "j < length survey" "m = s_name_clean (survey ! j)"
    by (auto simp: in_set_conv_nth)
  then have "c < 85" using low c by simp
  then show ?thesis unfolding match_row_fuzzy[OF e n] using Cons a by simp
qed

lemma sample_dp_rows [code]:
  "sample_dp =
     \<lparr>retention_survey =
        [\<lparr>s_Name = ''Amy Lee'', s_Email_Address = ''amy@upei.ca'', s_Status = ''Still in PEI'',
          s_name_clean = ''amy lee'', s_email_clean = ''amy@upei.ca''\<rparr>,
         \<lparr>s_Name = ''William Turner'', s_Email_Address = ''wturner@upei.ca'',
          s_Status = ''No longer in PEI'', s_name_clean = ''william turner'',
          s_email_clean = ''wturner@upei.ca''\<rparr>],
      registrations_2023 =
        [\<lparr>Name = ''Zed Quux'', Email = ''amy@upei.ca'', name_clean = ''zed quux'',
          email_clean = ''amy@upei.ca''\<rparr>,
         \<lparr>Name = ''Dr. Amy Lee'', Email = [], name_clean = ''amy lee'', email_clean = []\<rparr>],
      registrations_2024 = []\<rparr>"
  by code_simp

subsection \<open>Duplicate keys\<close>

lemma dup_dp_rows [code]:
  "dup_dp =
     \<lparr>retention_survey =
        [\<lparr>s_Name = ''Amy Lee'', s_Email_Address = ''amy@upei.ca'', s_Status = ''Still in PEI'',
          s_name_clean = ''amy lee'', s_email_clean = ''amy@upei.ca''\<rparr>,
         \<lparr>s_Name = ''AMY LEE'', s_Email_Address = ''amy@upei.ca'', s_Status = ''No longer in PEI'',
          s_name_clean = ''amy lee'', s_email_clean = ''amy@upei.ca''\<rparr>],
      registrations_2023 =
        [\<lparr>Name = ''Amy Lee'', Email = [], name_clean = ''amy lee'', email_clean = []\<rparr>,
         \<lparr>Name = ''Amy B. Lee'', Email = [], name_clean = ''amy b lee'', email_clean = []\<rparr>,
         \<lparr>Name = ''Zed'', Email = ''amy@upei.ca'', name_clean = ''zed'',
          email_clean = ''amy@upei.ca''\<rparr>],
      registrations_2024 = []\<rparr>"
  by code_simp

lemma iloc0_first_row:
  assumes "first_row_with P rows i"
  shows "iloc0 (filter P rows) = Inr (rows ! i)"
proof -
  have i: "i < length rows" and p: "P (rows ! i)" and before: "\<forall>l<i. \<not> P (rows ! l)"
    using assms by (simp_all add: first_row_with_def)
  have "filter P (take i rows) = []"
    using before i by (auto simp: filter_empty_conv in_set_conv_nth)
  moreover have "rows = take i rows @ rows ! i # drop (Suc i) rows"
    using i by (simp add: id_take_nth_drop)
  ultimately have "filter P rows = rows ! i # filter P (drop (Suc i) rows)"
    using p by (metis append_Nil filter.simps(2) filter_append)
  then show ?thesis by (simp add: iloc0_def)
qed



text \<open>The same on the whole pipeline: the rows of both stages for \<open>dup_dp\<close>.\<close>

lemma dup_dp_pipeline:
  "map_sum id (map (\<lambda>r. (retention_status r, match_type r, match_confidence r)))
     (match_members dup_fuzz dup_dp 2023) =
     Inr [(''No longer in PEI'', ''Name_Exact'', 100), (''Still in PEI'', ''Name_Fuzzy'', 95),
          (''No longer in PEI'', ''Email'', 100)]"
  "map_sum id (map (\<lambda>r. (retention_status r, match_type r, match_confidence r)))
     (improved_matching dup_fuzz dup_dp 2023 75) =
     Inr [(''No longer in PEI'', ''Name_Exact'', 100), (''Still in PEI'', ''Name_Fuzzy'', 95),
          (''No longer in PEI'', ''Email'', 100)]"
  by code_simp+

subsection \<open>The rows of the second pass\<close>

lemma partial_name_search_ok:
  "search_ok survey t st \<Longrightarrow> search_ok survey t (strategy_partial_name fz survey t name st)"
  unfolding strategy_partial_name_def Let_def search_ok_def
  by (auto split: option.splits prod.splits dest!: find_Some_mem set_process_extract)

lemma phonetic_search_ok:
  "search_ok survey t st \<Longrightarrow> search_ok survey t (strategy_phonetic fz survey t name st)"
  unfolding strategy_phonetic_def Let_def search_ok_def
  by (auto split: option.splits prod.splits dest!: find_Some_mem)

lemma email_username_search_ok:
  assumes "search_ok survey t st" and "strategy_email_username fz survey t email st = Inr st'"
  shows "search_ok survey t st'"
proof (cases "email \<noteq> [] \<and> CHR ''@'' \<in> set email \<and> \<not> truthy st")
  case False
  then show ?thesis using assms by (auto simp: strategy_email_username_def)
next
  case True
  show ?thesis
  proof (cases "find (\<lambda>survey_email. CHR ''@'' \<in> set survey_email \<and>
                    ratio fz (username_of email) (username_of survey_email) \<ge> t)
              (map s_email_clean survey)")
    case None
    then show ?thesis using True assms by (simp add: strategy_email_username_def)
  next
    case (Some se)
    then have t: "t \<le> ratio fz (username_of email) (username_of se)"
      using find_Some_mem by fastforce
    from assms(2) True Some obtain y where
      y: "iloc0 (filter (\<lambda>s. s_email_clean s = se) survey) = Inr y"
      and st': "st' = Some (s_name_clean y, ratio fz (username_of email) (username_of se), ''Email_Username'')"
      by (auto simp: strategy_email_username_def split: sum.splits)
    from iloc0_Inr_mem[OF y] have "y \<in> set survey" by simp
    then show ?thesis using st' t by (simp add: search_ok_def)
  qed
qed

lemma search_person_ok:
  "search_person fz survey t person = Inr st \<Longrightarrow> search_ok survey t st"
  unfolding search_person_def
  by (erule email_username_search_ok[rotated], rule phonetic_search_ok, rule partial_name_search_ok)
     (simp add: search_ok_def)

lemma apply_best_shape:
  assumes "search_ok survey t st" and "apply_best survey st row = Inr r"
  shows "r = row \<or>
         matched_row survey {''Partial_Name'', ''Phonetic'', ''Email_Username''} t r"
proof (cases st)
  case None
  then show ?thesis using assms(2) by (simp add: apply_best_def)
next
  case (Some a)
  obtain m s ty where a: "a = (m, s, ty)" by (cases a)
  show ?thesis
  proof (cases "m = []")
    case True
    then show ?thesis using assms(2) Some a by (simp add: apply_best_def)
  next
    case False
    then obtain y where y: "iloc0 (filter (\<lambda>s. s_name_clean s = m) survey) = Inr y"
      and r: "r = row\<lparr>retention_status := s_Status y, match_type := ty, match_confidence := s\<rparr>"
      using assms(2) Some a by (auto simp: apply_best_def split: sum.splits)
    from iloc0_Inr_mem[OF y] have "y \<in> set survey" by simp
    moreover have "ty \<in> {''Partial_Name'', ''Phonetic'', ''Email_Username''} \<and> t \<le> s"
      using assms(1) Some a by (auto simp: search_ok_def)
    ultimately show ?thesis using r by (simp add: matched_row_def)
  qed
qed

text \<open>Both stages together, for a valid year.\<close>

lemma pipeline_rows:
  assumes "year = 2023 \<or> year = 2024"
  shows "\<exists>rs rs'. match_members fz dp year = Inr rs \<and> improved_matching fz dp year t = Inr rs' \<and>
           length rs = length (registrations_for dp year) \<and> length rs' = length rs \<and>
           (\<forall>i<length rs.
              (unmatched_row (rs ! i) \<or>
               matched_row (retention_survey dp) {''Email'', ''Name_Exact'', ''Name_Fuzzy''} 85 (rs ! i)) \<and>
              (retention_status (rs ! i) \<noteq> ''Unknown'' \<longrightarrow> rs' ! i = rs ! i) \<and>
              (rs' ! i = rs ! i \<or>
               retention_status (rs ! i) = ''Unknown'' \<and>
               matched_row (retention_survey dp) {''Partial_Name'', ''Phonetic'', ''Email_Username''} t
                 (rs' ! i)))"
proof -
  from improved_matching_valid[OF assms, of fz dp t] obtain rs rs' where
    rs: "match_members fz dp year = Inr rs" and rs': "improved_matching fz dp year t = Inr rs'"
    and len: "length rs = length (registrations_for dp year)" "length rs' = length rs"
    and rows: "\<forall>i<length rs.
              (retention_status (rs ! i) \<noteq> ''Unknown'' \<longrightarrow> rs' ! i = rs ! i) \<and>
              (retention_status (rs ! i) = ''Unknown'' \<longrightarrow>
                 (\<exists>st. search_person fz (retention_survey dp) t (rs ! i) = Inr st \<and>
                       apply_best (retention_survey dp) st (rs ! i) = Inr (rs' ! i)))"
    by blast
  have "\<forall>i<length rs.
              (unmatched_row (rs ! i) \<or>
               matched_row (retention_survey dp) {''Email'', ''Name_Exact'', ''Name_Fuzzy''} 85 (rs ! i)) \<and>
              (retention_status (rs ! i) \<noteq> ''Unknown'' \<longrightarrow> rs' ! i = rs ! i) \<and>
              (rs' ! i = rs ! i \<or>
               retention_status (rs ! i) = ''Unknown'' \<and>
               matched_row (retention_survey dp) {''Partial_Name'', ''Phonetic'', ''Email_Username''} t
                 (rs' ! i))"
  proof (intro allI impI)
    fix i assume i: "i < length rs"
    have 1: "unmatched_row (rs ! i) \<or>
               matched_row (retention_survey dp) {''Email'', ''Name_Exact'', ''Name_Fuzzy''} 85 (rs ! i)"
      by (rule match_members_shape[OF assms rs i])
    have 2: "retention_status (rs ! i) \<noteq> ''Unknown'' \<longrightarrow> rs' ! i = rs ! i"
      using rows i by blast
    have 3: "rs' ! i = rs ! i \<or>
               retention_status (rs ! i) = ''Unknown'' \<and>
               matched_row (retention_survey dp) {''Partial_Name'', ''Phonetic'', ''Email_Username''} t
                 (rs' ! i)"
    proof (cases "retention_status (rs ! i) = ''Unknown''")
      case False
      then show ?thesis using 2 by simp
    next
      case True
      then obtain st where st: "search_person fz (retention_survey dp) t (rs ! i) = Inr st"
        and ab: "apply_best (retention_survey dp) st (rs ! i) = Inr (rs' ! i)"
        using rows i by blast
      from apply_best_shape[OF search_person_ok[OF st] ab] True show ?thesis by blast
    qed
    from 1 2 3 show "(unmatched_row (rs ! i) \<or>
               matched_row (retention_survey dp) {''Email'', ''Name_Exact'', ''Name_Fuzzy''} 85 (rs ! i)) \<and>
              (retention_status (rs ! i) \<noteq> ''Unknown'' \<longrightarrow> rs' ! i = rs ! i) \<and>
              (rs' ! i = rs ! i \<or>
               retention_status (rs ! i) = ''Unknown'' \<and>
               matched_row (retention_survey dp) {''Partial_Name'', ''Phonetic'', ''Email_Username''} t
                 (rs' ! i))" by blast
  qed
  then show ?thesis using rs rs' len by blast
qed

lemma zero_dp_rows [code]:
  "zero_dp =
     \<lparr>retention_survey =
        [\<lparr>s_Name = ''Wright'', s_Email_Address = ''wright@upei.ca'', s_Status = ''Still in PEI'',
          s_name_clean = ''wright'', s_email_clean = ''wright@upei.ca''\<rparr>],
      registrations_2023 =
        [\<lparr>Name = ''Flynn'', Email = ''flynn@upei.ca'', name_clean = ''flynn'',
          email_clean = ''flynn@upei.ca''\<rparr>],
      registrations_2024 = []\<rparr>"
  by code_simp




subsection \<open>The order of the strategies\<close>

lemma turner_dp_rows [code]:
  "turner_dp =
     \<lparr>retention_survey =
        [\<lparr>s_Name = ''William Turner'', s_Email_Address = ''wturner@upei.ca'',
          s_Status = ''Still in PEI'', s_name_clean = ''william turner'',
          s_email_clean = ''wturner@upei.ca''\<rparr>],
      registrations_2023 =
        [\<lparr>Name = ''Bill Turner'', Email = [], name_clean = ''bill turner'', email_clean = []\<rparr>],
      registrations_2024 = []\<rparr>"
  by code_simp

lemma phonetic_skip: "truthy st \<Longrightarrow> strategy_phonetic fz survey t name st = st"
  by (simp add: strategy_phonetic_def)

lemma email_username_skip: "truthy st \<Longrightarrow> strategy_email_username fz survey t email st = Inr st"
  by (simp add: strategy_email_username_def)

lemma apply_best_falsy: "\<not> truthy st \<Longrightarrow> apply_best survey st row = Inr row"
  by (auto simp: truthy_def apply_best_def split: option.splits)

subsection \<open>The candidates of the diagnostics\<close>

lemma for_rows_set:
  assumes "for_rows f xs = Inr ys" and "y \<in> set ys"
  shows "\<exists>x\<in>set xs. f x = Inr y"
proof -
  from for_rows_Inr[OF assms(1)] have len: "length ys = length xs"
    and nth: "\<forall>i<length xs. f (xs ! i) = Inr (ys ! i)" by simp_all
  from assms(2) obtain i where "i < length ys" "y = ys ! i" by (metis in_set_conv_nth)
  then show ?thesis using len nth by (metis nth_mem)
qed

lemma for_rows_length: "for_rows f xs = Inr ys \<Longrightarrow> length ys = length xs"
  using for_rows_Inr by blast

lemma process_extract_length: "length (process_extract scorer q choices n) \<le> n"
  by (simp add: process_extract_def)

lemma name_candidates_props:
  assumes "name_candidates fz survey q n th tag v = Inr cs"
  shows "length cs \<le> n \<and>
         (\<forall>c\<in>set cs. ctype c = tag \<and> th \<le> score c \<and> variant_used c = v \<and> from_survey survey c)"
proof -
  let ?f = "\<lambda>(match, sc).
                 case iloc0 (filter (\<lambda>s. s_name_clean s = match) survey) of
                   Inl e \<Rightarrow> Inl e
                 | Inr survey_row \<Rightarrow> Inr (mk_candidate tag sc v survey_row)"
  let ?xs = "filter (\<lambda>(match, sc). sc \<ge> th)
          (process_extract (WRatio fz) q (map s_name_clean survey) n)"
  have fr: "for_rows ?f ?xs = Inr cs" using assms by (simp add: name_candidates_def)
  have "length cs = length ?xs" by (rule for_rows_length[OF fr])
  also have "\<dots> \<le> length (process_extract (WRatio fz) q (map s_name_clean survey) n)"
    by (rule length_filter_le)
  also have "\<dots> \<le> n" by (rule process_extract_length)
  finally have len: "length cs \<le> n" .
  have "\<forall>c\<in>set cs. ctype c = tag \<and> th \<le> score c \<and> variant_used c = v \<and> from_survey survey c"
  proof
    fix c assume "c \<in> set cs"
    from for_rows_set[OF fr this] obtain x where x: "x \<in> set ?xs" and fx: "?f x = Inr c" by blast
    obtain m sc where ms: "x = (m, sc)" by (cases x)
    from x ms have th: "th \<le> sc" by simp
    from fx ms obtain y where y: "iloc0 (filter (\<lambda>s. s_name_clean s = m) survey) = Inr y"
      and c: "c = mk_candidate tag sc v y" by (auto split: sum.splits)
    from iloc0_Inr_mem[OF y] have "y \<in> set survey" by simp
    then show "ctype c = tag \<and> th \<le> score c \<and> variant_used c = v \<and> from_survey survey c"
      using c th by (auto simp: mk_candidate_def from_survey_def)
  qed
  with len show ?thesis by blast
qed

lemma find_potential_matches_total:
  assumes "\<forall>p. re p \<noteq> None"
  shows "\<exists>sugg. find_potential_matches re fz survey unmatched = Inr sugg"
proof -
  have "\<exists>entries. for_rows (potential_for re fz survey) unmatched = Inr entries"
  proof (rule for_rows_total)
    fix person
    show "\<exists>y. potential_for re fz survey person = Inr y"
    proof (cases "potential_for re fz survey person")
      case (Inl e)
      then have "e = ReError" by (rule potential_for_error)
      moreover have "\<And>email. email_candidates re fz survey email \<noteq> Inl ReError"
      proof -
        fix email
        obtain found where "re (CHR ''@'' # split_on CHR ''@'' email ! 1) = Some found"
          using assms by (metis option.exhaust)
        then show "email_candidates re fz survey email \<noteq> Inl ReError"
          by (simp add: email_candidates_def Let_def)
      qed
      ultimately show ?thesis
        using Inl partial_candidates_total[of fz survey "name_clean person"]
          variant_candidates_total[of fz survey "name_clean person"]
        by (auto simp: potential_for_def Let_def split: sum.splits if_splits dest: email_candidates_error)
    next
      case (Inr y)
      then show ?thesis by blast
    qed
  qed
  then show ?thesis by (auto simp: find_potential_matches_def)
qed

lemma analyze_total:
  assumes "yr = 2023 \<or> yr = 2024" and "registrations_for (data_processor self) yr \<noteq> []"
    and "\<forall>p. re p \<noteq> None"
  shows "\<exists>a self'. analyze_unmatched_records re fz self yr = Inr (a, self')"
proof -
  obtain rs where rs: "match_members fz (data_processor self) yr = Inr rs"
    using match_frame_total match_members_valid[OF assms(1)] by metis
  obtain pm where pm: "find_potential_matches re fz (retention_survey (data_processor self))
      (filter (\<lambda>row. retention_status row = ''Unknown'') rs) = Inr pm"
    using find_potential_matches_total[OF assms(3)] by blast
  show ?thesis
    using assms(1,2) rs pm
    by (auto simp: analyze_unmatched_records_def Let_def registrations_for_def)
qed

subsection \<open>The email normalizer is idempotent\<close>

lemma lower_char_idem: "lower_char (lower_char c) = lower_char c"
proof (cases "is_upper c")
  case True
  then have n: "65 \<le> (of_char c :: nat)" "(of_char c :: nat) \<le> 90"
    by (simp_all add: is_upper_def Let_def)
  then have eq: "(of_char (char_of ((of_char c :: nat) + 32)) :: nat) = of_char c + 32" by simp
  have "\<not> is_upper (char_of ((of_char c :: nat) + 32))"
    unfolding is_upper_def Let_def eq using n by simp
  then show ?thesis using True by (simp add: lower_char_def)
next
  case False
  then show ?thesis by (simp add: lower_char_def)
qed

lemma lower_fixed: "\<forall>c\<in>set s. lower_char c = c \<Longrightarrow> lower s = s"
  by (simp add: lower_def map_idI)

lemma lower_lowered: "\<forall>c\<in>set (lower s). lower_char c = c"
  by (auto simp: lower_def lower_char_idem)

lemma set_strip: "set (strip s) \<subseteq> set s"
proof -
  have "set (strip s) = set (dropWhile is_space (rev (dropWhile is_space s)))"
    by (simp add: strip_def)
  also have "\<dots> \<subseteq> set (rev (dropWhile is_space s))" by (rule set_dropWhileD[THEN subsetI])
  also have "\<dots> \<subseteq> set s" by (auto dest: set_dropWhileD)
  finally show ?thesis .
qed

lemma strip_fixed:
  assumes "s = [] \<or> (\<not> is_space (hd s) \<and> \<not> is_space (last s))"
  shows "strip s = s"
proof (cases s)
  case Nil
  then show ?thesis by (simp add: strip_def)
next
  case (Cons a as)
  with assms have h: "\<not> is_space (hd s)" and l: "\<not> is_space (last s)" by auto
  have 1: "dropWhile is_space s = s" using h Cons by simp
  obtain b bs where rs: "rev s = b # bs" using Cons by (cases "rev s") auto
  have "hd (rev s) = last s" using Cons by (simp add: hd_rev)
  then have "b = last s" using rs by simp
  then have 2: "dropWhile is_space (rev s) = rev s" unfolding rs using l by simp
  show ?thesis by (simp add: strip_def 1 2)
qed

lemma dropWhile_hd: "dropWhile P xs = [] \<or> \<not> P (hd (dropWhile P xs))"
  by (metis hd_dropWhile)

lemma dropWhile_last: "dropWhile P xs \<noteq> [] \<Longrightarrow> last (dropWhile P xs) = last xs"
  by (induction xs) (auto split: if_splits)

lemma strip_ends: "strip s = [] \<or> (\<not> is_space (hd (strip s)) \<and> \<not> is_space (last (strip s)))"
proof (cases "strip s = []")
  case True
  then show ?thesis by simp
next
  case False
  let ?u = "dropWhile is_space s"
  let ?v = "dropWhile is_space (rev ?u)"
  have s: "strip s = rev ?v" by (simp add: strip_def)
  with False have v: "?v \<noteq> []" by simp
  then have u: "?u \<noteq> []" by (metis dropWhile.simps(1) rev.simps(1))
  have "\<not> is_space (hd ?v)" using v dropWhile_hd[of is_space "rev ?u"] by blast
  then have l: "\<not> is_space (last (strip s))" using s v by (simp add: last_rev)
  have "last ?v = last (rev ?u)" by (rule dropWhile_last[OF v])
  also have "\<dots> = hd ?u" using u by (simp add: last_rev)
  finally have "hd (strip s) = hd ?u" using s v by (simp add: hd_rev)
  moreover have "\<not> is_space (hd ?u)" using u dropWhile_hd[of is_space s] by blast
  ultimately show ?thesis using l by simp
qed

lemma strip_idem: "strip (strip s) = strip s"
  by (rule strip_fixed) (rule strip_ends)

lemma strip_no_space: "\<forall>c\<in>set s. \<not> is_space c \<Longrightarrow> strip s = s"
  by (rule strip_fixed) (cases s, auto)

lemma split_seps_acc_tokens:
  "\<forall>c\<in>set cur. \<not> is_sep c \<Longrightarrow> tok \<in> set (split_seps_acc cur s) \<Longrightarrow>
     (\<forall>c\<in>set tok. \<not> is_sep c) \<and> set tok \<subseteq> set cur \<union> set s"
proof (induction cur s rule: split_seps_acc.induct)
  case (1 cur)
  then show ?case by auto
next
  case (2 cur c cs)
  show ?case
  proof (cases "is_sep c")
    case True
    then have "tok = rev cur \<or> tok \<in> set (split_seps_acc [] (dropWhile is_sep cs))"
      using "2.prems"(2) by simp
    then show ?thesis
    proof
      assume "tok = rev cur"
      then show ?thesis using "2.prems"(1) by auto
    next
      assume "tok \<in> set (split_seps_acc [] (dropWhile is_sep cs))"
      from "2.IH"(1)[OF True _ this] have "(\<forall>c\<in>set tok. \<not> is_sep c) \<and>
          set tok \<subseteq> set (dropWhile is_sep cs)" by simp
      then show ?thesis by (auto dest: set_dropWhileD)
    qed
  next
    case False
    then have "tok \<in> set (split_seps_acc (c # cur) cs)" using "2.prems"(2) by simp
    from "2.IH"(2)[OF False _ this] False "2.prems"(1) show ?thesis by auto
  qed
qed

lemma split_seps_tokens:
  "tok \<in> set (split_seps s) \<Longrightarrow> (\<forall>c\<in>set tok. \<not> is_sep c) \<and> set tok \<subseteq> set s"
  using split_seps_acc_tokens[of "[]" tok s] by (simp add: split_seps_def)

lemma split_seps_acc_no_sep:
  "\<forall>c\<in>set s. \<not> is_sep c \<Longrightarrow> split_seps_acc cur s = [rev cur @ s]"
  by (induction cur s rule: split_seps_acc.induct) auto

lemma split_seps_no_sep: "\<forall>c\<in>set s. \<not> is_sep c \<Longrightarrow> split_seps s = [s]"
  by (simp add: split_seps_def split_seps_acc_no_sep)

lemma first_valid_Some:
  "first_valid toks = Some e \<Longrightarrow> \<exists>tok\<in>set toks. e = strip tok \<and> valid_email e"
  by (induction toks) (auto split: if_splits)

lemma space_is_sep: "is_space c \<Longrightarrow> is_sep c"
  by (simp add: is_sep_def)

lemma clean_emails_idempotent: "clean_emails (clean_emails x) = clean_emails x"
proof (cases "x = []")
  case True
  then show ?thesis by (simp add: clean_emails_def)
next
  case False
  let ?e = "strip (lower x)"
  have low: "\<forall>c\<in>set ?e. lower_char c = c" using set_strip[of "lower x"] lower_lowered[of x] by blast
  show ?thesis
  proof (cases "first_valid (split_seps ?e)")
    case None
    then have r: "clean_emails x = ?e" using False by (simp add: clean_emails_def)
    have "strip (lower ?e) = ?e" using lower_fixed[OF low] strip_idem by simp
    then have "clean_emails ?e = ?e" using None by (simp add: clean_emails_def)
    then show ?thesis using r by simp
  next
    case (Some e)
    then have r: "clean_emails x = e" using False by (simp add: clean_emails_def)
    from first_valid_Some[OF Some] obtain tok where tok: "tok \<in> set (split_seps ?e)"
      and e: "e = strip tok" and v: "valid_email e" by blast
    from split_seps_tokens[OF tok] have ns: "\<forall>c\<in>set tok. \<not> is_sep c" and sub: "set tok \<subseteq> set ?e"
      by simp_all
    have "strip tok = tok" using ns space_is_sep by (intro strip_no_space) blast
    then have et: "e = tok" using e by simp
    have ne: "e \<noteq> []" using v by (auto simp: valid_email_def)
    have "lower e = e" using low sub et by (intro lower_fixed) blast
    moreover have se: "strip e = e" using et \<open>strip tok = tok\<close> by simp
    ultimately have "strip (lower e) = e" by simp
    moreover have "split_seps e = [e]" using ns et by (simp add: split_seps_no_sep)
    ultimately have "clean_emails e = e" using ne v se by (simp add: clean_emails_def)
    then show ?thesis using r by simp
  qed
qed

subsection \<open>When the strategies of the second pass accept\<close>

lemma split_ws_Nil: "split_ws [] = []"
  by (simp add: split_ws_def)

lemma first_best_exists: "0 < n \<Longrightarrow> \<exists>i. first_best sc n i"
proof (induction n)
  case 0
  then show ?case by simp
next
  case (Suc n)
  show ?case
  proof (cases "n = 0")
    case True
    then have "first_best sc (Suc n) 0" by (simp add: first_best_def)
    then show ?thesis by blast
  next
    case False
    then obtain i where i: "first_best sc n i" using Suc.IH by blast
    show ?thesis
    proof (cases "sc i < sc n")
      case True
      then have "first_best sc (Suc n) n"
        using i by (auto simp: first_best_def less_Suc_eq intro: le_less_trans less_imp_le)
      then show ?thesis by blast
    next
      case False
      then have "first_best sc (Suc n) i"
        using i by (auto simp: first_best_def less_Suc_eq)
      then show ?thesis by blast
    qed
  qed
qed

lemma first_row_find:
  assumes "first_row_with P rows i"
  shows "find P rows = Some (rows ! i)"
  using assms unfolding first_row_with_def find_Some_iff by auto

lemma find_map: "find P (map f xs) = map_option f (find (\<lambda>x. P (f x)) xs)"
  by (induction xs) auto

lemma partial_name_accepted:
  assumes "partial_name_accepts fz survey t name i"
  shows "strategy_partial_name fz survey t name None =
           Some (s_name_clean (survey ! i),
                 WRatio fz (first_last (split_ws name)) (s_name_clean (survey ! i)), ''Partial_Name'')"
proof -
  let ?q = "first_last (split_ws name)"
  let ?names = "map s_name_clean survey"
  have two: "2 \<le> length (split_ws name)"
    and fb: "first_best (\<lambda>j. WRatio fz ?q (s_name_clean (survey ! j))) (length survey) i"
    and sc: "t \<le> WRatio fz ?q (s_name_clean (survey ! i))"
    using assms by (simp_all add: partial_name_accepts_def)
  have ne: "name \<noteq> []" using two split_ws_Nil by auto
  have i: "i < length survey" using fb by (simp add: first_best_def)
  have fb': "first_best (\<lambda>j. WRatio fz ?q (?names ! j)) (length ?names) i"
    using fb by (simp add: first_best_def)
  from process_extract_hd[of "WRatio fz" ?q ?names i 3, OF fb'] obtain rest where
    "process_extract (WRatio fz) ?q ?names 3 = (?names ! i, WRatio fz ?q (?names ! i)) # rest"
    by auto
  then have pe: "process_extract (WRatio fz) ?q ?names 3 =
      (s_name_clean (survey ! i), WRatio fz ?q (s_name_clean (survey ! i))) # rest"
    using i by simp
  show ?thesis
    using ne two sc pe by (simp add: strategy_partial_name_def truthy_def Let_def)
qed

lemma partial_name_rejected:
  assumes "partial_name_rejects fz survey t name"
  shows "\<not> truthy (strategy_partial_name fz survey t name None)"
proof
  let ?q = "first_last (split_ws name)"
  let ?names = "map s_name_clean survey"
  assume tr: "truthy (strategy_partial_name fz survey t name None)"
  then have ne: "name \<noteq> []" and two: "2 \<le> length (split_ws name)"
    by (auto simp: strategy_partial_name_def truthy_def Let_def split: if_splits)
  from tr ne two obtain m sc where
    f: "find (\<lambda>(match_name, score). score \<ge> t) (process_extract (WRatio fz) ?q ?names 3) = Some (m, sc)"
    and m: "m \<noteq> []"
    by (auto simp: strategy_partial_name_def truthy_def Let_def split: option.splits)
  from f have tsc: "t \<le> sc" using find_Some_mem by fastforce
  from process_extract_find[OF f] obtain rest where
    pe: "process_extract (WRatio fz) ?q ?names 3 = (m, sc) # rest" by blast
  then have "?names \<noteq> []" by (auto simp: process_extract_def)
  then have "0 < length survey" by simp
  from first_best_exists[OF this] obtain i where
    fb: "first_best (\<lambda>j. WRatio fz ?q (s_name_clean (survey ! j))) (length survey) i" by blast
  have i: "i < length survey" using fb by (simp add: first_best_def)
  have fb': "first_best (\<lambda>j. WRatio fz ?q (?names ! j)) (length ?names) i"
    using fb by (simp add: first_best_def)
  from process_extract_hd[of "WRatio fz" ?q ?names i 3, OF fb'] pe i
  have "m = s_name_clean (survey ! i)" "sc = WRatio fz ?q (s_name_clean (survey ! i))" by auto
  then have "partial_name_accepts fz survey t name i"
    using two fb tsc m by (simp add: partial_name_accepts_def)
  then show False using assms i by (simp add: partial_name_rejects_def)
qed

lemma hit_first_name:
  assumes "first_row_with P survey i" and "\<And>s s'. s_name_clean s = s_name_clean s' \<Longrightarrow> P s = P s'"
  shows "first_row_with (\<lambda>s. s_name_clean s = s_name_clean (survey ! i)) survey i"
  using assms unfolding first_row_with_def by (metis atLeastLessThan_iff set_upt)

lemma hit_first_email:
  assumes "first_row_with P survey i" and "\<And>s s'. s_email_clean s = s_email_clean s' \<Longrightarrow> P s = P s'"
  shows "first_row_with (\<lambda>s. s_email_clean s = s_email_clean (survey ! i)) survey i"
  using assms unfolding first_row_with_def by (metis atLeastLessThan_iff set_upt)

lemma consonants_Nil: "consonants [] = []"
  by (simp add: consonants_def lower_def)

lemma phonetic_accepted:
  assumes "\<not> truthy st" and "phonetic_accepts fz survey t name i"
  shows "strategy_phonetic fz survey t name st =
           Some (s_name_clean (survey ! i),
                 ratio fz (consonants name) (consonants (s_name_clean (survey ! i))), ''Phonetic'')"
proof -
  have fr: "first_row_with (phonetic_hit fz t name) survey i"
    using assms(2) by (simp add: phonetic_accepts_def)
  then have "phonetic_hit fz t name (survey ! i)" by (simp add: first_row_with_def)
  then have ne: "name \<noteq> []" using consonants_Nil by (auto simp: phonetic_hit_def)
  from first_row_find[OF fr]
  have "find (\<lambda>survey_name. length (consonants name) > 3 \<and> length (consonants survey_name) > 3 \<and>
                      ratio fz (consonants name) (consonants survey_name) \<ge> t + 10)
          (map s_name_clean survey) = Some (s_name_clean (survey ! i))"
    unfolding find_map by (simp add: phonetic_hit_def[abs_def])
  then show ?thesis using ne assms(1) by (simp add: strategy_phonetic_def Let_def)
qed

lemma phonetic_rejected:
  assumes "phonetic_rejects fz survey t name"
  shows "strategy_phonetic fz survey t name st = st"
proof -
  have "find (\<lambda>survey_name. length (consonants name) > 3 \<and> length (consonants survey_name) > 3 \<and>
                      ratio fz (consonants name) (consonants survey_name) \<ge> t + 10)
          (map s_name_clean survey) = None"
    using assms by (auto simp: find_None_iff phonetic_rejects_def phonetic_hit_def)
  then show ?thesis by (simp add: strategy_phonetic_def Let_def)
qed

lemma email_username_accepted:
  assumes "\<not> truthy st" and "email_username_accepts fz survey t email i"
  shows "strategy_email_username fz survey t email st =
           Inr (Some (s_name_clean (survey ! i),
                      ratio fz (username_of email) (username_of (s_email_clean (survey ! i))),
                      ''Email_Username''))"
proof -
  have at: "CHR ''@'' \<in> set email" and fr: "first_row_with (username_hit fz t email) survey i"
    using assms(2) by (simp_all add: email_username_accepts_def)
  have ne: "email \<noteq> []" using at by auto
  from first_row_find[OF fr]
  have f: "find (\<lambda>survey_email. CHR ''@'' \<in> set survey_email \<and>
                      ratio fz (username_of email) (username_of survey_email) \<ge> t)
          (map s_email_clean survey) = Some (s_email_clean (survey ! i))"
    unfolding find_map by (simp add: username_hit_def[abs_def])
  have "first_row_with (\<lambda>s. s_email_clean s = s_email_clean (survey ! i)) survey i"
    by (rule hit_first_email[OF fr]) (simp add: username_hit_def)
  from iloc0_first_row[OF this]
  have il: "iloc0 (filter (\<lambda>s. s_email_clean s = s_email_clean (survey ! i)) survey) = Inr (survey ! i)" .
  show ?thesis using ne at assms(1) f il by (simp add: strategy_email_username_def Let_def)
qed

lemma email_username_rejected:
  assumes "email_username_rejects fz survey t email"
  shows "strategy_email_username fz survey t email st = Inr st"
proof (cases "CHR ''@'' \<in> set email")
  case False
  then show ?thesis by (simp add: strategy_email_username_def)
next
  case True
  then have "find (\<lambda>survey_email. CHR ''@'' \<in> set survey_email \<and>
                      ratio fz (username_of email) (username_of survey_email) \<ge> t)
          (map s_email_clean survey) = None"
    using assms by (auto simp: find_None_iff email_username_rejects_def username_hit_def)
  then show ?thesis by (simp add: strategy_email_username_def Let_def)
qed

lemma match_row_keeps:
  assumes "match_row fz survey nl el row = Inr r"
  shows "\<exists>a b c. r = row\<lparr>retention_status := a, match_type := b, match_confidence := c\<rparr>"
proof -
  have same: "row = row\<lparr>retention_status := retention_status row, match_type := match_type row,
                         match_confidence := match_confidence row\<rparr>" by simp
  show ?thesis
  proof (cases "if email_clean row \<noteq> [] then el (email_clean row) else None")
    case (Some v)
    then have "r = row\<lparr>retention_status := v, match_type := ''Email'', match_confidence := 100\<rparr>"
      using assms by (simp add: match_row_def)
    then show ?thesis by blast
  next
    case eNone: None
    show ?thesis
    proof (cases "if name_clean row \<noteq> [] then nl (name_clean row) else None")
      case (Some v)
      then have "r = row\<lparr>retention_status := v, match_type := ''Name_Exact'',
                           match_confidence := 100\<rparr>"
        using assms eNone by (simp add: match_row_def)
      then show ?thesis by blast
    next
      case nNone: None
      show ?thesis
      proof (cases "name_clean row \<noteq> []")
        case False
        then have "r = row" using assms eNone nNone by (simp add: match_row_def)
        then show ?thesis using same by metis
      next
        case True
        show ?thesis
        proof (cases "find_name_matches fz (name_clean row) (map s_name_clean survey) 80")
          case Nil
          then have "r = row" using assms eNone nNone True by (simp add: match_row_def)
          then show ?thesis using same by metis
        next
          case (Cons a rest)
          obtain best_match confidence where a: "a = (best_match, confidence)" by (cases a)
          show ?thesis
          proof (cases "confidence \<ge> 85")
            case False
            then have "r = row" using assms eNone nNone True Cons a by (simp add: match_row_def)
            then show ?thesis using same by metis
          next
            case c: True
            then obtain y where y: "iloc0 (filter (\<lambda>s. s_name_clean s = best_match) survey) = Inr y"
              and r: "r = row\<lparr>retention_status := s_Status y, match_type := ''Name_Fuzzy'',
                             match_confidence := confidence\<rparr>"
              using assms eNone nNone True Cons a by (auto simp: match_row_def split: sum.splits)
            from r show ?thesis by blast
          qed
        qed
      qed
    qed
  qed
qed

lemma match_members_keeps:
  assumes "year = 2023 \<or> year = 2024" and "match_members fz dp year = Inr rs" and "k < length rs"
  shows "name_clean (rs ! k) = name_clean (registrations_for dp year ! k) \<and>
         email_clean (rs ! k) = email_clean (registrations_for dp year ! k) \<and>
         Name (rs ! k) = Name (registrations_for dp year ! k) \<and>
         Email (rs ! k) = Email (registrations_for dp year ! k)"
proof -
  from assms(2) match_members_valid[OF assms(1), of fz dp]
  have mf: "match_frame fz (retention_survey dp) (registrations_for dp year) = Inr rs" by simp
  from match_frame_rows[OF mf] assms(3)
  have "match_row fz (retention_survey dp)
          (dict_zip (map s_name_clean (retention_survey dp)) (map s_Status (retention_survey dp)))
          (dict_zip (map s_email_clean (retention_survey dp)) (map s_Status (retention_survey dp)))
          (init_result (registrations_for dp year ! k)) = Inr (rs ! k)"
    by simp
  from match_row_keeps[OF this] obtain a b c where
    "rs ! k = (init_result (registrations_for dp year ! k))
                \<lparr>retention_status := a, match_type := b, match_confidence := c\<rparr>" by blast
  then show ?thesis by (simp add: init_result_def)
qed

lemma apply_best_first_row:
  assumes "first_row_with (\<lambda>s. s_name_clean s = m) survey j" and "m \<noteq> []"
  shows "apply_best survey (Some (m, sc, ty)) row = Inr (matched_as row (survey ! j) ty sc)"
  using iloc0_first_row[OF assms(1)] assms(2) by (simp add: apply_best_def matched_as_def)

lemma truthy_Some: "truthy (Some (m, sc, ty)) \<longleftrightarrow> m \<noteq> []"
  by (simp add: truthy_def)

lemma second_pass_partial_name:
  assumes sp: "search_person fz survey t p = Inr st" and ab: "apply_best survey st p = Inr r"
    and acc: "partial_name_accepts fz survey t (name_clean p) i"
  shows "r = matched_as p (survey ! i) ''Partial_Name''
               (WRatio fz (first_last (split_ws (name_clean p))) (s_name_clean (survey ! i)))"
proof -
  let ?sc = "WRatio fz (first_last (split_ws (name_clean p))) (s_name_clean (survey ! i))"
  let ?s1 = "Some (s_name_clean (survey ! i), ?sc, ''Partial_Name'')"
  have ne: "s_name_clean (survey ! i) \<noteq> []"
    and fb: "first_best (\<lambda>j. WRatio fz (first_last (split_ws (name_clean p))) (s_name_clean (survey ! j)))
               (length survey) i"
    using acc by (simp_all add: partial_name_accepts_def)
  have s1: "strategy_partial_name fz survey t (name_clean p) None = ?s1"
    by (rule partial_name_accepted[OF acc])
  have tr: "truthy ?s1" using ne by (simp add: truthy_Some)
  have "st = ?s1"
    using sp unfolding search_person_def s1 phonetic_skip[OF tr] email_username_skip[OF tr] by simp
  moreover have "first_row_with (\<lambda>s. s_name_clean s = s_name_clean (survey ! i)) survey i"
    using fb unfolding first_best_def first_row_with_def by fastforce
  ultimately show ?thesis using ab apply_best_first_row[OF _ ne] by simp
qed

lemma second_pass_phonetic:
  assumes sp: "search_person fz survey t p = Inr st" and ab: "apply_best survey st p = Inr r"
    and rej: "partial_name_rejects fz survey t (name_clean p)"
    and acc: "phonetic_accepts fz survey t (name_clean p) i"
  shows "r = matched_as p (survey ! i) ''Phonetic''
               (ratio fz (consonants (name_clean p)) (consonants (s_name_clean (survey ! i))))"
proof -
  let ?sc = "ratio fz (consonants (name_clean p)) (consonants (s_name_clean (survey ! i)))"
  let ?s2 = "Some (s_name_clean (survey ! i), ?sc, ''Phonetic'')"
  have fr: "first_row_with (phonetic_hit fz t (name_clean p)) survey i"
    using acc by (simp add: phonetic_accepts_def)
  then have "phonetic_hit fz t (name_clean p) (survey ! i)" by (simp add: first_row_with_def)
  then have ne: "s_name_clean (survey ! i) \<noteq> []" using consonants_Nil by (auto simp: phonetic_hit_def)
  have s2: "strategy_phonetic fz survey t (name_clean p)
              (strategy_partial_name fz survey t (name_clean p) None) = ?s2"
    by (rule phonetic_accepted[OF partial_name_rejected[OF rej] acc])
  have tr: "truthy ?s2" using ne by (simp add: truthy_Some)
  have "st = ?s2"
    using sp unfolding search_person_def s2 email_username_skip[OF tr] by simp
  moreover have "first_row_with (\<lambda>s. s_name_clean s = s_name_clean (survey ! i)) survey i"
    by (rule hit_first_name[OF fr]) (simp add: phonetic_hit_def)
  ultimately show ?thesis using ab apply_best_first_row[OF _ ne] by simp
qed

lemma second_pass_email_username:
  assumes sp: "search_person fz survey t p = Inr st" and ab: "apply_best survey st p = Inr r"
    and rej: "partial_name_rejects fz survey t (name_clean p)"
    and rej2: "phonetic_rejects fz survey t (name_clean p)"
    and acc: "email_username_accepts fz survey t (email_clean p) i"
  shows "(s_name_clean (survey ! i) = [] \<longrightarrow> r = p) \<and>
         (\<forall>j. s_name_clean (survey ! i) \<noteq> [] \<and>
               first_row_with (\<lambda>s. s_name_clean s = s_name_clean (survey ! i)) survey j \<longrightarrow>
               r = matched_as p (survey ! j) ''Email_Username''
                     (ratio fz (username_of (email_clean p)) (username_of (s_email_clean (survey ! i)))))"
proof -
  let ?sc = "ratio fz (username_of (email_clean p)) (username_of (s_email_clean (survey ! i)))"
  let ?s3 = "Some (s_name_clean (survey ! i), ?sc, ''Email_Username'')"
  let ?s1 = "strategy_partial_name fz survey t (name_clean p) None"
  have n1: "\<not> truthy ?s1" by (rule partial_name_rejected[OF rej])
  have s2: "strategy_phonetic fz survey t (name_clean p) ?s1 = ?s1"
    by (rule phonetic_rejected[OF rej2])
  have "strategy_email_username fz survey t (email_clean p) ?s1 = Inr ?s3"
    by (rule email_username_accepted[OF n1 acc])
  then have st: "st = ?s3" using sp unfolding search_person_def s2 by simp
  show ?thesis
  proof (intro conjI impI allI)
    assume "s_name_clean (survey ! i) = []"
    then show "r = p" using ab st by (simp add: apply_best_def)
  next
    fix j
    assume a: "s_name_clean (survey ! i) \<noteq> [] \<and>
            first_row_with (\<lambda>s. s_name_clean s = s_name_clean (survey ! i)) survey j"
    then have "apply_best survey ?s3 p = Inr (matched_as p (survey ! j) ''Email_Username'' ?sc)"
      by (intro apply_best_first_row) simp_all
    then show "r = matched_as p (survey ! j) ''Email_Username'' ?sc"
      using ab st by simp
  qed
qed

lemma second_pass_none:
  assumes sp: "search_person fz survey t p = Inr st" and ab: "apply_best survey st p = Inr r"
    and rej: "partial_name_rejects fz survey t (name_clean p)"
    and rej2: "phonetic_rejects fz survey t (name_clean p)"
    and rej3: "email_username_rejects fz survey t (email_clean p)"
  shows "r = p"
proof -
  let ?s1 = "strategy_partial_name fz survey t (name_clean p) None"
  have n1: "\<not> truthy ?s1" by (rule partial_name_rejected[OF rej])
  have s2: "strategy_phonetic fz survey t (name_clean p) ?s1 = ?s1"
    by (rule phonetic_rejected[OF rej2])
  have "strategy_email_username fz survey t (email_clean p) ?s1 = Inr ?s1"
    by (rule email_username_rejected[OF rej3])
  then have "st = ?s1" using sp unfolding search_person_def s2 by simp
  then show ?thesis using ab apply_best_falsy[OF n1] by simp
qed

lemma mohammed_dp_rows [code]:
  "mohammed_dp =
     \<lparr>retention_survey =
        [\<lparr>s_Name = ''Muhamad'', s_Email_Address = ''muhamad@upei.ca'', s_Status = ''Still in PEI'',
          s_name_clean = ''muhamad'', s_email_clean = ''muhamad@upei.ca''\<rparr>],
      registrations_2023 =
        [\<lparr>Name = ''Mohammed'', Email = [], name_clean = ''mohammed'', email_clean = []\<rparr>],
      registrations_2024 = []\<rparr>"
  by code_simp

lemma jsmith_dp_rows [code]:
  "jsmith_dp =
     \<lparr>retention_survey =
        [\<lparr>s_Name = ''Wright'', s_Email_Address = ''j.smith@uni.edu'',
          s_Status = ''No longer in PEI'', s_name_clean = ''wright'',
          s_email_clean = ''j.smith@uni.edu''\<rparr>],
      registrations_2023 =
        [\<lparr>Name = ''Flynn'', Email = ''jsmith@uni.edu'', name_clean = ''flynn'',
          email_clean = ''jsmith@uni.edu''\<rparr>],
      registrations_2024 = []\<rparr>"
  by code_simp

lemma wu_dp_rows [code]:
  "wu_dp =
     \<lparr>retention_survey =
        [\<lparr>s_Name = ''William Wu'', s_Email_Address = ''wwu@upei.ca'', s_Status = ''Still in PEI'',
          s_name_clean = ''william wu'', s_email_clean = ''wwu@upei.ca''\<rparr>],
      registrations_2023 =
        [\<lparr>Name = ''Bill Wu'', Email = [], name_clean = ''bill wu'', email_clean = []\<rparr>],
      registrations_2024 = []\<rparr>"
  by code_simp

lemma noname_dp_rows [code]:
  "noname_dp =
     \<lparr>retention_survey =
        [\<lparr>s_Name = [], s_Email_Address = ''j.smith@uni.edu'', s_Status = ''Still in PEI'',
          s_name_clean = [], s_email_clean = ''j.smith@uni.edu''\<rparr>],
      registrations_2023 =
        [\<lparr>Name = ''Flynn'', Email = ''jsmith@uni.edu'', name_clean = ''flynn'',
          email_clean = ''jsmith@uni.edu''\<rparr>],
      registrations_2024 = []\<rparr>"
  by code_simp

subsection \<open>A survey status \<open>Unknown\<close>, and an empty email\<close>

lemma unknown_dp_rows [code]:
  "unknown_dp =
     \<lparr>retention_survey =
        [\<lparr>s_Name = ''Amy Lee'', s_Email_Address = ''a.lee@upei.ca'', s_Status = ''Still in PEI'',
          s_name_clean = ''amy lee'', s_email_clean = ''a.lee@upei.ca''\<rparr>,
         \<lparr>s_Name = ''A. Lee'', s_Email_Address = ''amy@upei.ca'', s_Status = ''Unknown'',
          s_name_clean = ''a lee'', s_email_clean = ''amy@upei.ca''\<rparr>],
      registrations_2023 =
        [\<lparr>Name = ''Amy B. Lee'', Email = ''amy@upei.ca'', name_clean = ''amy b lee'',
          email_clean = ''amy@upei.ca''\<rparr>,
         \<lparr>Name = ''A Lee'', Email = [], name_clean = ''a lee'', email_clean = []\<rparr>],
      registrations_2024 = []\<rparr>"
  by code_simp

lemma empty_email_not_matched:
  assumes "match_row fz survey nl el row = Inr r" and "email_clean row = []"
    and "match_type row \<noteq> ''Email''"
  shows "match_type r \<noteq> ''Email''"
proof (cases "if name_clean row \<noteq> [] then nl (name_clean row) else None")
  case (Some v)
  then have "r = row\<lparr>retention_status := v, match_type := ''Name_Exact'', match_confidence := 100\<rparr>"
    using assms(1,2) by (simp add: match_row_def)
  then show ?thesis by simp
next
  case nNone: None
  show ?thesis
  proof (cases "name_clean row \<noteq> []")
    case False
    then have "r = row" using assms(1,2) nNone by (simp add: match_row_def)
    then show ?thesis using assms(3) by simp
  next
    case True
    show ?thesis
    proof (cases "find_name_matches fz (name_clean row) (map s_name_clean survey) 80")
      case Nil
      then have "r = row" using assms(1,2) nNone True by (simp add: match_row_def)
      then show ?thesis using assms(3) by simp
    next
      case (Cons a rest)
      obtain best_match confidence where a: "a = (best_match, confidence)" by (cases a)
      show ?thesis
      proof (cases "confidence \<ge> 85")
        case False
        then have "r = row" using assms(1,2) nNone True Cons a by (simp add: match_row_def)
        then show ?thesis using assms(3) by simp
      next
        case c: True
        then obtain y where y: "iloc0 (filter (\<lambda>s. s_name_clean s = best_match) survey) = Inr y"
          and r: "r = row\<lparr>retention_status := s_Status y, match_type := ''Name_Fuzzy'',
                         match_confidence := confidence\<rparr>"
          using assms(1,2) nNone True Cons a by (auto simp: match_row_def split: sum.splits)
        from r show ?thesis by simp
      qed
    qed
  qed
qed

subsection \<open>What the diagnostics collect\<close>

lemma best_pos_first_best:
  "xs \<noteq> [] \<Longrightarrow> first_best (\<lambda>j. xs ! j) (length xs) (best_pos xs)"
proof (induction xs)
  case Nil
  then show ?case by simp
next
  case (Cons x xs)
  show ?case
  proof (cases "\<forall>y\<in>set xs. y \<le> x")
    case True
    then have "\<forall>j<length (x # xs). (x # xs) ! j \<le> x"
      by (auto simp: nth_Cons split: nat.splits)
    then show ?thesis using True by (simp add: first_best_def)
  next
    case False
    then obtain y where y: "y \<in> set xs" "x < y" by auto
    then have ne: "xs \<noteq> []" by auto
    from Cons.IH[OF ne] have ih: "first_best (\<lambda>j. xs ! j) (length xs) (best_pos xs)" .
    let ?b = "best_pos xs"
    have b: "?b < length xs" and mx: "\<forall>j<length xs. xs ! j \<le> xs ! ?b"
      and fst: "\<forall>j<?b. xs ! j < xs ! ?b"
      using ih by (simp_all add: first_best_def)
    obtain j where "j < length xs" "y = xs ! j" using y(1) by (metis in_set_conv_nth)
    then have xb: "x < xs ! ?b" using y(2) mx by force
    have 1: "\<forall>j<length (x # xs). (x # xs) ! j \<le> (x # xs) ! Suc ?b"
      using mx xb by (auto simp: nth_Cons split: nat.splits)
    have 2: "\<forall>j<Suc ?b. (x # xs) ! j < (x # xs) ! Suc ?b"
      using fst xb by (auto simp: nth_Cons split: nat.splits)
    have bp: "best_pos (x # xs) = Suc ?b" using False by simp
    show ?thesis unfolding bp first_best_def using b 1 2 by simp
  qed
qed

lemma insort_key_first: "\<forall>y\<in>set ys. f x \<le> f y \<Longrightarrow> insort_key f x ys = x # ys"
  by (cases ys) auto

lemma sort_key_select:
  assumes "i < length xs" and "\<forall>j<length xs. f (xs ! i) \<le> f (xs ! j)"
    and "\<forall>j<i. f (xs ! i) < f (xs ! j)"
  shows "sort_key f xs = xs ! i # sort_key f (take i xs @ drop (Suc i) xs)"
  using assms
proof (induction xs arbitrary: i)
  case Nil
  then show ?case by simp
next
  case (Cons x xs)
  show ?case
  proof (cases i)
    case 0
    have "\<forall>y\<in>set (sort_key f xs). f x \<le> f y"
    proof
      fix y assume "y \<in> set (sort_key f xs)"
      then have "y \<in> set xs" by simp
      then obtain j where "j < length xs" "y = xs ! j" by (metis in_set_conv_nth)
      then show "f x \<le> f y" using Cons.prems(2) 0 by (metis length_Cons not_less_eq nth_Cons_0 nth_Cons_Suc)
    qed
    from insort_key_first[OF this] show ?thesis using 0 by simp
  next
    case (Suc i')
    have i': "i' < length xs" using Cons.prems(1) Suc by simp
    have a: "\<forall>j<length xs. f (xs ! i') \<le> f (xs ! j)"
      using Cons.prems(2) Suc by (metis length_Cons not_less_eq nth_Cons_Suc)
    have b: "\<forall>j<i'. f (xs ! i') < f (xs ! j)"
      using Cons.prems(3) Suc by (metis not_less_eq nth_Cons_Suc)
    have ih: "sort_key f xs = xs ! i' # sort_key f (take i' xs @ drop (Suc i') xs)"
      by (rule Cons.IH[OF i' a b])
    have lt: "f (xs ! i') < f x" using Cons.prems(3) Suc by (metis nth_Cons_0 nth_Cons_Suc zero_less_Suc)
    have "sort_key f (x # xs) = insort_key f x (xs ! i' # sort_key f (take i' xs @ drop (Suc i') xs))"
      using ih by simp
    also have "\<dots> = xs ! i' # insort_key f x (sort_key f (take i' xs @ drop (Suc i') xs))"
      using lt by (simp add: not_le[symmetric])
    also have "\<dots> = xs ! i' # sort_key f (x # take i' xs @ drop (Suc i') xs)" by simp
    finally show ?thesis using Suc by simp
  qed
qed

lemma take_sort_key_best_scoring:
  "take n (sort_key (\<lambda>(c, s). - s) xs) = best_scoring n xs"
proof (induction n arbitrary: xs)
  case 0
  then show ?case by simp
next
  case (Suc n)
  show ?case
  proof (cases "xs = []")
    case True
    then show ?thesis by simp
  next
    case False
    let ?i = "best_pos (map snd xs)"
    let ?f = "\<lambda>(c, s). - s :: int"
    have "map snd xs \<noteq> []" using False by simp
    from best_pos_first_best[OF this]
    have fb: "first_best (\<lambda>j. map snd xs ! j) (length xs) ?i" by simp
    then have i: "?i < length xs" by (simp add: first_best_def)
    have a: "\<forall>j<length xs. ?f (xs ! ?i) \<le> ?f (xs ! j)"
      using fb i by (auto simp: first_best_def case_prod_beta)
    have b: "\<forall>j<?i. ?f (xs ! ?i) < ?f (xs ! j)"
      using fb i by (auto simp: first_best_def case_prod_beta)
    from sort_key_select[of ?i xs ?f, OF i a b]
    have "sort_key ?f xs = xs ! ?i # sort_key ?f (take ?i xs @ drop (Suc ?i) xs)" .
    then show ?thesis using False Suc.IH by (simp add: Let_def)
  qed
qed

lemma process_extract_best_scoring:
  "process_extract scorer q choices n = best_scoring n (map (\<lambda>c. (c, scorer q c)) choices)"
  by (simp add: process_extract_def take_sort_key_best_scoring)

lemma for_rows_map: "(\<And>x. x \<in> set xs \<Longrightarrow> f x = Inr (g x)) \<Longrightarrow> for_rows f xs = Inr (map g xs)"
  by (induction xs) auto

lemma for_rows_fail:
  assumes "x \<in> set xs" and "f x = Inl e"
    and "\<forall>y\<in>set xs. \<forall>e'. f y = Inl e' \<longrightarrow> e' = e"
  shows "for_rows f xs = Inl e"
  using assms
proof (induction xs)
  case Nil
  then show ?case by simp
next
  case (Cons a xs)
  show ?case
  proof (cases "f a")
    case (Inl e')
    then have "e' = e" using Cons.prems(3) by simp
    then show ?thesis using Inl by simp
  next
    case (Inr b)
    then have "x \<in> set xs" using Cons.prems(1,2) by auto
    moreover have "\<forall>y\<in>set xs. \<forall>e'. f y = Inl e' \<longrightarrow> e' = e" using Cons.prems(3) by simp
    ultimately have "for_rows f xs = Inl e" using Cons.IH Cons.prems(2) by blast
    then show ?thesis using Inr by simp
  qed
qed

lemma iloc0_hd: "rows \<noteq> [] \<Longrightarrow> iloc0 rows = Inr (hd rows)"
  by (cases rows) (simp_all add: iloc0_def)

lemma name_candidates_shown:
  "name_candidates fz survey q n th tag v = Inr (shown fz survey q n th tag v)"
proof -
  let ?ex = "process_extract (WRatio fz) q (map s_name_clean survey) n"
  let ?g = "\<lambda>(m, sc). mk_candidate tag sc v (hd (filter (\<lambda>s. s_name_clean s = m) survey))"
  have ex: "?ex = best_scoring n (map (\<lambda>s. (s_name_clean s, WRatio fz q (s_name_clean s))) survey)"
    by (simp add: process_extract_best_scoring comp_def)
  have "for_rows (\<lambda>(match, sc).
                 case iloc0 (filter (\<lambda>s. s_name_clean s = match) survey) of
                   Inl e \<Rightarrow> Inl e
                 | Inr survey_row \<Rightarrow> Inr (mk_candidate tag sc v survey_row))
          (filter (\<lambda>(match, sc). sc \<ge> th) ?ex) = Inr (map ?g (filter (\<lambda>(match, sc). sc \<ge> th) ?ex))"
  proof (rule for_rows_map)
    fix x assume "x \<in> set (filter (\<lambda>(match, sc). sc \<ge> th) ?ex)"
    then have mem: "x \<in> set ?ex" by simp
    obtain m sc where x: "x = (m, sc)" by (cases x)
    with mem have "(m, sc) \<in> set ?ex" by simp
    then have "m \<in> set (map s_name_clean survey)" using set_process_extract by blast
    then have "filter (\<lambda>s. s_name_clean s = m) survey \<noteq> []"
      by (auto simp: filter_empty_conv)
    from iloc0_hd[OF this] show "(case x of (match, sc) \<Rightarrow>
            case iloc0 (filter (\<lambda>s. s_name_clean s = match) survey) of Inl e \<Rightarrow> Inl e
            | Inr survey_row \<Rightarrow> Inr (mk_candidate tag sc v survey_row)) = Inr (?g x)"
      using x by simp
  qed
  then show ?thesis unfolding name_candidates_def shown_def ex by simp
qed

lemma partial_candidates_shown:
  "partial_candidates fz survey name =
     Inr (if 2 \<le> length (split_ws name)
          then shown fz survey (first_last (split_ws name)) 3 70 ''partial_name'' None else [])"
proof (cases "2 \<le> length (split_ws name)")
  case True
  then have "name \<noteq> []" using split_ws_Nil by auto
  then show ?thesis using True by (simp add: partial_candidates_def name_candidates_shown)
next
  case False
  then show ?thesis by (simp add: partial_candidates_def)
qed

lemma split_on_acc_ne: "split_on_acc sep cur s \<noteq> []"
  by (induction s arbitrary: cur) auto

lemma username_of_nth: "username_of email = split_on CHR ''@'' email ! 0"
  unfolding username_of_def split_on_def using split_on_acc_ne by (simp add: hd_conv_nth)

lemma email_candidates_shown:
  assumes "CHR ''@'' \<in> set email"
  shows "email_candidates re fz survey email =
           (case re (domain_pattern email) of
              Some found \<Rightarrow> Inr (email_shown found fz survey email)
            | None \<Rightarrow> Inl ReError)"
proof -
  have ne: "email \<noteq> []" using assms by auto
  show ?thesis
    using assms ne
    by (auto simp: email_candidates_def Let_def domain_pattern_def email_shown_def
          username_of_nth[symmetric] conj_commute split: option.splits)
qed

lemma email_candidates_none:
  "CHR ''@'' \<notin> set email \<Longrightarrow> email_candidates re fz survey email = Inr []"
  by (simp add: email_candidates_def)

lemma concat_map_of:
  assumes "distinct (map fst xs)"
  shows "concat (map (\<lambda>(a, b). if k = a then [g b] else []) xs) =
           (case map_of xs k of Some b \<Rightarrow> [g b] | None \<Rightarrow> [])"
  using assms
proof (induction xs)
  case Nil
  then show ?case by simp
next
  case (Cons x xs)
  obtain a b where x: "x = (a, b)" by (cases x)
  have none: "k \<notin> fst ` set xs \<Longrightarrow> concat (map (\<lambda>(a, b). if k = a then [g b] else []) xs) = []"
    by (induction xs) auto
  show ?case
  proof (cases "k = a")
    case True
    then have "k \<notin> fst ` set xs" using Cons.prems x by auto
    from none[OF this] show ?thesis using True x by simp
  next
    case False
    then show ?thesis using Cons x by simp
  qed
qed

lemma concat_map_filter:
  "concat (map (\<lambda>(a, b). if k = b then [g a] else []) xs) =
     map (\<lambda>(a, b). g a) (filter (\<lambda>(a, b). k = b) xs)"
  by (induction xs) auto

lemma nickname_map_distinct: "distinct (map fst nickname_map)"
  by (simp add: nickname_map_def)

lemma name_variants_eq: "generate_name_variants name = name_variants name"
  unfolding generate_name_variants_def name_variants_def Let_def
  using concat_map_of[OF nickname_map_distinct, of "lower (hd (split_ws name))"
          "\<lambda>nick. nick @ '' '' @ join_sp (tl (split_ws name))"]
        concat_map_filter[of "lower (hd (split_ws name))"
          "\<lambda>full. full @ '' '' @ join_sp (tl (split_ws name))" nickname_map]
  by (simp add: not_less)

lemma variant_candidates_shown:
  "variant_candidates fz survey name =
     Inr (concat (map (\<lambda>v. shown fz survey v 2 80 ''name_variant'' (Some v)) (name_variants name)))"
proof (cases "name = []")
  case True
  then have "name_variants name = []" by (simp add: name_variants_def split_ws_Nil)
  then show ?thesis using True by (simp add: variant_candidates_def)
next
  case False
  have "for_rows (\<lambda>variant. name_candidates fz survey variant 2 80 ''name_variant'' (Some variant))
          (generate_name_variants name) =
        Inr (map (\<lambda>v. shown fz survey v 2 80 ''name_variant'' (Some v)) (generate_name_variants name))"
    by (rule for_rows_map) (rule name_candidates_shown)
  then show ?thesis using False by (simp add: variant_candidates_def name_variants_eq)
qed

lemma potential_for_collected:
  assumes "CHR ''@'' \<in> set (email_clean person) \<longrightarrow> re (domain_pattern (email_clean person)) \<noteq> None"
  shows "potential_for re fz survey person =
           Inr (if collected re fz survey person = [] then None
                else Some \<lparr>registration_name = Name person, registration_email = Email person,
                           potential_matches = take 5 (collected re fz survey person)\<rparr>)"
proof (cases "CHR ''@'' \<in> set (email_clean person)")
  case False
  then show ?thesis
    by (simp add: potential_for_def partial_candidates_shown email_candidates_none
          variant_candidates_shown collected_def Let_def)
next
  case True
  then obtain found where f: "re (domain_pattern (email_clean person)) = Some found"
    using assms by auto
  show ?thesis
    using True f
    by (simp add: potential_for_def partial_candidates_shown email_candidates_shown
          variant_candidates_shown collected_def Let_def)
qed

lemma potential_for_fails:
  assumes "CHR ''@'' \<in> set (email_clean person)" and "re (domain_pattern (email_clean person)) = None"
  shows "potential_for re fz survey person = Inl ReError"
  using assms
  by (simp add: potential_for_def partial_candidates_shown email_candidates_shown)

lemma concat_entries:
  "concat (map (\<lambda>e. case e of None \<Rightarrow> [] | Some x \<Rightarrow> [x])
     (map (\<lambda>p. if c p = [] then None else Some (g p)) xs)) = map g (filter (\<lambda>p. c p \<noteq> []) xs)"
  by (induction xs) auto

lemma find_potential_matches_collected:
  assumes "\<forall>p\<in>set unmatched. CHR ''@'' \<in> set (email_clean p) \<longrightarrow>
             re (domain_pattern (email_clean p)) \<noteq> None"
  shows "find_potential_matches re fz survey unmatched =
           Inr (map (\<lambda>p. \<lparr>registration_name = Name p, registration_email = Email p,
                          potential_matches = take 5 (collected re fz survey p)\<rparr>)
                  (filter (\<lambda>p. collected re fz survey p \<noteq> []) unmatched))"
proof -
  have fr: "for_rows (potential_for re fz survey) unmatched =
          Inr (map (\<lambda>p. if collected re fz survey p = [] then None
                else Some \<lparr>registration_name = Name p, registration_email = Email p,
                           potential_matches = take 5 (collected re fz survey p)\<rparr>) unmatched)"
    by (rule for_rows_map) (use assms in \<open>simp add: potential_for_collected\<close>)
  show ?thesis unfolding find_potential_matches_def fr
    by (simp only: sum.case concat_entries)
qed

lemma find_potential_matches_fails:
  assumes "p \<in> set unmatched" and "CHR ''@'' \<in> set (email_clean p)"
    and "re (domain_pattern (email_clean p)) = None"
  shows "find_potential_matches re fz survey unmatched = Inl ReError"
proof -
  have pf: "potential_for re fz survey p = Inl ReError"
    using assms(2,3) by (rule potential_for_fails)
  have "for_rows (potential_for re fz survey) unmatched = Inl ReError"
    using assms(1) pf
  proof (rule for_rows_fail)
    show "\<forall>y\<in>set unmatched. \<forall>e'. potential_for re fz survey y = Inl e' \<longrightarrow> e' = ReError"
      using potential_for_error by blast
  qed
  then show ?thesis by (simp add: find_potential_matches_def)
qed

lemma analyze_potential_matches:
  assumes "analyze_unmatched_records re fz self yr = Inr (a, self')"
  shows "\<exists>rs. match_members fz (data_processor self) yr = Inr rs \<and>
           find_potential_matches re fz (retention_survey (data_processor self))
             (filter (\<lambda>r. retention_status r = ''Unknown'') rs) = Inr (a_potential_matches a)"
  using assms
  by (auto simp: analyze_unmatched_records_def Let_def split: if_splits sum.splits)

lemma bturner_dp_rows [code]:
  "bturner_dp =
     \<lparr>retention_survey =
        [\<lparr>s_Name = ''William Turner'', s_Email_Address = ''wturner@upei.ca'',
          s_Status = ''Still in PEI'', s_name_clean = ''william turner'',
          s_email_clean = ''wturner@upei.ca''\<rparr>],
      registrations_2023 =
        [\<lparr>Name = ''Bill Turner'', Email = ''bturner@upei.ca'', name_clean = ''bill turner'',
          email_clean = ''bturner@upei.ca''\<rparr>],
      registrations_2024 = []\<rparr>"
  by code_simp

lemma lee_dp_rows [code]:
  "lee_dp =
     \<lparr>retention_survey =
        [\<lparr>s_Name = ''Wright'', s_Email_Address = ''leo@hollandcollege.com'',
          s_Status = ''Still in PEI'', s_name_clean = ''wright'',
          s_email_clean = ''leo@hollandcollege.com''\<rparr>],
      registrations_2023 =
        [\<lparr>Name = ''Flynn'', Email = ''lee@upei.ca'', name_clean = ''flynn'',
          email_clean = ''lee@upei.ca''\<rparr>],
      registrations_2024 = []\<rparr>"
  by code_simp

lemma shown_props:
  "\<forall>c\<in>set (shown fz survey q n th tag v). ctype c = tag \<and> th \<le> score c \<and> from_survey survey c"
  using name_candidates_props[OF name_candidates_shown, of fz survey q n th tag v] by blast

lemma length_best_scoring: "length (best_scoring n xs) \<le> n"
  by (induction n arbitrary: xs) (auto simp: Let_def)

lemma collected_props:
  "\<forall>c\<in>set (collected re fz survey p). display_ok c \<and> from_survey survey c"
proof
  fix c assume "c \<in> set (collected re fz survey p)"
  then have "c \<in> set (shown fz survey (first_last (split_ws (name_clean p))) 3 70 ''partial_name'' None) \<or>
      (\<exists>found. c \<in> set (email_shown found fz survey (email_clean p))) \<or>
      (\<exists>v. c \<in> set (shown fz survey v 2 80 ''name_variant'' (Some v)))"
    unfolding collected_def set_append Un_iff
    by (cases "re (domain_pattern (email_clean p))";
        cases "CHR ''@'' \<in> set (email_clean p)";
        cases "2 \<le> length (split_ws (name_clean p))") auto
  then show "display_ok c \<and> from_survey survey c"
  proof (elim disjE exE)
    assume "c \<in> set (shown fz survey (first_last (split_ws (name_clean p))) 3 70 ''partial_name'' None)"
    then show ?thesis using shown_props by (auto simp: display_ok_def)
  next
    fix found assume "c \<in> set (email_shown found fz survey (email_clean p))"
    then show ?thesis by (auto simp: email_shown_def display_ok_def mk_candidate_def from_survey_def)
  next
    fix v assume "c \<in> set (shown fz survey v 2 80 ''name_variant'' (Some v))"
    then show ?thesis using shown_props by (auto simp: display_ok_def)
  qed
qed

subsection \<open>Claims\<close>

text \<open>
  C9.  A year other than 2023 and 2024 is rejected with \<open>ValueError\<close> by
  \<open>match_members\<close>, by \<open>improved_matching\<close> and by \<open>analyze_unmatched_records\<close>; for
  the years 2023 and 2024 the two matching functions return a result and the diagnostics
  do not raise \<open>ValueError\<close>.
\<close>

theorem C9_year_validation:
  "(year \<noteq> 2023 \<and> year \<noteq> 2024 \<longrightarrow>
      match_members fz dp year = Inl ValueError \<and>
      improved_matching fz dp year t = Inl ValueError \<and>
      analyze_unmatched_records re fz self year = Inl ValueError) \<and>
   (year = 2023 \<or> year = 2024 \<longrightarrow>
      (\<exists>rs. match_members fz dp year = Inr rs) \<and>
      (\<exists>rs. improved_matching fz dp year t = Inr rs) \<and>
      analyze_unmatched_records re fz self year \<noteq> Inl ValueError)"
proof (intro conjI impI)
  assume "year = 2023 \<or> year = 2024"
  then show "\<exists>rs. match_members fz dp year = Inr rs"
    and "\<exists>rs. improved_matching fz dp year t = Inr rs"
    and "analyze_unmatched_records re fz self year \<noteq> Inl ValueError"
    using improved_matching_valid[of year fz dp t] analyze_valid_error[of year re fz self]
    by blast+
qed (simp_all add: match_members_invalid improved_matching_invalid analyze_invalid)

theorem C9_year_validation_witness:
  "match_members sample_fuzz sample_dp 2025 = Inl ValueError \<and>
   improved_matching sample_fuzz sample_dp 2025 75 = Inl ValueError \<and>
   analyze_unmatched_records sample_re sample_fuzz
     \<lparr>data_processor = sample_dp, unmatched_analysis = Map.empty\<rparr> 2025 = Inl ValueError \<and>
   (\<exists>rs. match_members sample_fuzz sample_dp 2023 = Inr rs) \<and>
   (\<exists>rs. improved_matching sample_fuzz sample_dp 2023 75 = Inr rs) \<and>
   analyze_unmatched_records sample_re sample_fuzz
     \<lparr>data_processor = sample_dp, unmatched_analysis = Map.empty\<rparr> 2023 \<noteq> Inl ValueError"
  using C9_year_validation[of 2025 sample_fuzz sample_dp 75 sample_re
          "\<lparr>data_processor = sample_dp, unmatched_analysis = Map.empty\<rparr>"]
        C9_year_validation[of 2023 sample_fuzz sample_dp 75 sample_re
          "\<lparr>data_processor = sample_dp, unmatched_analysis = Map.empty\<rparr>"]
  by simp

text \<open>
  C4.  \<open>clean_names\<close> is not idempotent: the special characters are removed after the
  runs of whitespace have been collapsed, so removing \<open>&\<close> from
  \<open>John & Jane Doe\<close> leaves two blanks, which a second application collapses.
\<close>

theorem C4_clean_names_not_idempotent:
  "clean_names ''John & Jane Doe'' = ''john  jane doe'' \<and>
   clean_names (clean_names ''John & Jane Doe'') = ''john jane doe''"
  by code_simp

text \<open>
  C2 (as amended).  A registration whose normalized email is not empty and equals the
  normalized email of some survey row gets method \<open>Email\<close> with confidence 100 and
  the status of the last survey row with that email from \<open>match_members\<close>, whatever
  the scorers give; when that status is not the string \<open>Unknown\<close>,
  \<open>improved_matching\<close> returns the row unchanged.
\<close>

theorem C2_email_priority:
  assumes "year = 2023 \<or> year = 2024"
    and "k < length (registrations_for dp year)"
    and "email_clean (registrations_for dp year ! k) \<noteq> []"
    and "\<exists>s\<in>set (retention_survey dp).
           s_email_clean s = email_clean (registrations_for dp year ! k)"
  shows "\<exists>rs. match_members fz dp year = Inr rs \<and> k < length rs \<and>
           match_type (rs ! k) = ''Email'' \<and> match_confidence (rs ! k) = 100 \<and>
           retention_status (rs ! k) =
             s_Status (last (filter (\<lambda>s. s_email_clean s =
                                         email_clean (registrations_for dp year ! k))
                               (retention_survey dp))) \<and>
           (s_Status (last (filter (\<lambda>s. s_email_clean s =
                                         email_clean (registrations_for dp year ! k))
                               (retention_survey dp))) \<noteq> ''Unknown'' \<longrightarrow>
              (\<exists>rs'. improved_matching fz dp year t = Inr rs' \<and> rs' ! k = rs ! k))"
proof -
  let ?reg = "registrations_for dp year ! k"
  let ?sv = "retention_survey dp"
  let ?hits = "filter (\<lambda>s. s_email_clean s = email_clean ?reg) ?sv"
  from improved_matching_valid[OF assms(1), of fz dp t]
  obtain rs rs' where rs: "match_members fz dp year = Inr rs"
    and rs': "improved_matching fz dp year t = Inr rs'"
    and len: "length rs = length (registrations_for dp year)"
    and keep: "\<forall>i<length rs. retention_status (rs ! i) \<noteq> ''Unknown'' \<longrightarrow> rs' ! i = rs ! i"
    by blast
  from match_members_row[OF assms(1,2), of fz] rs
  have row: "match_row fz ?sv (name_lookup_of ?sv) (email_lookup_of ?sv) (init_result ?reg)
               = Inr (rs ! k)" by simp
  have e: "email_clean (init_result ?reg) = email_clean ?reg" by (simp add: init_result_def)
  from match_row_email[of "init_result ?reg" ?sv fz] assms(3,4) row e
  have rk: "rs ! k = (init_result ?reg)\<lparr>retention_status := s_Status (last ?hits),
                        match_type := ''Email'', match_confidence := 100\<rparr>"
    by simp
  have "s_Status (last ?hits) \<noteq> ''Unknown'' \<longrightarrow> rs' ! k = rs ! k"
  proof
    assume "s_Status (last ?hits) \<noteq> ''Unknown''"
    then have "retention_status (rs ! k) \<noteq> ''Unknown''" using rk by simp
    then show "rs' ! k = rs ! k" using keep assms(2) len by simp
  qed
  then show ?thesis using rs rs' rk len assms(2) by simp
qed

theorem C2_email_priority_witness:
  "\<exists>rs. match_members sample_fuzz sample_dp 2023 = Inr rs \<and> 0 < length rs \<and>
      match_type (rs ! 0) = ''Email'' \<and> match_confidence (rs ! 0) = 100 \<and>
      retention_status (rs ! 0) = ''Still in PEI'' \<and>
      (\<exists>rs'. improved_matching sample_fuzz sample_dp 2023 75 = Inr rs' \<and> rs' ! 0 = rs ! 0)"
proof -
  have h1: "(2023::int) = 2023 \<or> (2023::int) = 2024" by simp
  have h2: "0 < length (registrations_for sample_dp 2023)" by code_simp
  have h3: "email_clean (registrations_for sample_dp 2023 ! 0) \<noteq> []" by code_simp
  have h4: "\<exists>s\<in>set (retention_survey sample_dp).
              s_email_clean s = email_clean (registrations_for sample_dp 2023 ! 0)" by code_simp
  have h6: "s_Status (last (filter (\<lambda>s. s_email_clean s =
                                         email_clean (registrations_for sample_dp 2023 ! 0))
                               (retention_survey sample_dp))) = ''Still in PEI''" by code_simp
  from C2_email_priority[OF h1 h2 h3 h4, of sample_fuzz 75] h6 show ?thesis by auto
qed

text \<open>
  Without the condition on the status the property fails for the full pipeline: the
  first registration of \<open>unknown_dp\<close> has the email of the second survey row, whose status
  is the string \<open>Unknown\<close>.  \<open>match_members\<close> gives it the method \<open>Email\<close> with
  confidence 100; \<open>improved_matching\<close> takes the row for an unmatched one and matches it
  to the first survey row by partial name.
\<close>

theorem C2_unknown_status_counterexample:
  "email_clean (registrations_2023 unknown_dp ! 0) \<noteq> [] \<and>
   email_clean (registrations_2023 unknown_dp ! 0) = s_email_clean (retention_survey unknown_dp ! 1) \<and>
   map_sum id (\<lambda>rs. (retention_status (rs ! 0), match_type (rs ! 0), match_confidence (rs ! 0)))
     (match_members unknown_fuzz unknown_dp 2023) = Inr (''Unknown'', ''Email'', 100) \<and>
   map_sum id (\<lambda>rs. (retention_status (rs ! 0), match_type (rs ! 0), match_confidence (rs ! 0)))
     (improved_matching unknown_fuzz unknown_dp 2023 75) = Inr (''Still in PEI'', ''Partial_Name'', 100)"
  by code_simp

text \<open>
  C3.  For a registration whose normalized email and name both miss the exact lookups,
  \<open>match_members\<close> scores the normalized name against every survey name with the
  scorer of \<open>process.extract\<close>.  When no score reaches 85 the registration stays
  unmatched; otherwise the best-scoring survey row, the first one among equal scores,
  is adopted with method \<open>Name_Fuzzy\<close> and the score as confidence.  (The scorer
  gives an empty name a score below 85, as \<open>fuzzywuzzy\<close> does: it gives 0.)
\<close>

theorem C3_fuzzy_stage:
  assumes "year = 2023 \<or> year = 2024"
    and "k < length (registrations_for dp year)"
    and "email_clean (registrations_for dp year ! k) = [] \<or>
         (\<forall>s\<in>set (retention_survey dp).
            s_email_clean s \<noteq> email_clean (registrations_for dp year ! k))"
    and "name_clean (registrations_for dp year ! k) = [] \<or>
         (\<forall>s\<in>set (retention_survey dp).
            s_name_clean s \<noteq> name_clean (registrations_for dp year ! k))"
    and "\<forall>c. WRatio fz [] c < 85"
  shows "\<exists>rs. match_members fz dp year = Inr rs \<and> k < length rs \<and>
           ((\<forall>s\<in>set (retention_survey dp).
               WRatio fz (name_clean (registrations_for dp year ! k)) (s_name_clean s) < 85) \<longrightarrow>
              rs ! k = init_result (registrations_for dp year ! k)) \<and>
           (\<forall>i. first_best (\<lambda>j. WRatio fz (name_clean (registrations_for dp year ! k))
                                  (s_name_clean (retention_survey dp ! j)))
                   (length (retention_survey dp)) i \<and>
                85 \<le> WRatio fz (name_clean (registrations_for dp year ! k))
                       (s_name_clean (retention_survey dp ! i)) \<longrightarrow>
              rs ! k = (init_result (registrations_for dp year ! k))
                \<lparr>retention_status := s_Status (retention_survey dp ! i),
                 match_type := ''Name_Fuzzy'',
                 match_confidence := WRatio fz (name_clean (registrations_for dp year ! k))
                                       (s_name_clean (retention_survey dp ! i))\<rparr>)"
proof -
  let ?reg = "registrations_for dp year ! k"
  let ?row = "init_result ?reg"
  let ?sv = "retention_survey dp"
  have nm: "name_clean ?row = name_clean ?reg" and em: "email_clean ?row = email_clean ?reg"
    by (simp_all add: init_result_def)
  from match_members_row[OF assms(1,2), of fz] obtain rs where
    rs: "match_members fz dp year = Inr rs" and len: "length rs = length (registrations_for dp year)"
    and row: "match_row fz ?sv (name_lookup_of ?sv) (email_lookup_of ?sv) ?row = Inr (rs ! k)"
    by blast
  have e: "email_clean ?row = [] \<or> (\<forall>s\<in>set ?sv. s_email_clean s \<noteq> email_clean ?row)"
    using assms(3) em by simp
  have n: "name_clean ?row = [] \<or> (\<forall>s\<in>set ?sv. s_name_clean s \<noteq> name_clean ?row)"
    using assms(4) nm by simp
  have rej: "(\<forall>s\<in>set ?sv. WRatio fz (name_clean ?reg) (s_name_clean s) < 85) \<longrightarrow> rs ! k = ?row"
  proof
    assume "\<forall>s\<in>set ?sv. WRatio fz (name_clean ?reg) (s_name_clean s) < 85"
    then have "\<forall>j<length ?sv. WRatio fz (name_clean ?row) (s_name_clean (?sv ! j)) < 85"
      using nm by simp
    from fuzzy_rejects[OF e n this] row show "rs ! k = ?row" by simp
  qed
  have ado: "\<forall>i. first_best (\<lambda>j. WRatio fz (name_clean ?reg) (s_name_clean (?sv ! j))) (length ?sv) i \<and>
                85 \<le> WRatio fz (name_clean ?reg) (s_name_clean (?sv ! i)) \<longrightarrow>
              rs ! k = ?row\<lparr>retention_status := s_Status (?sv ! i), match_type := ''Name_Fuzzy'',
                 match_confidence := WRatio fz (name_clean ?reg) (s_name_clean (?sv ! i))\<rparr>"
  proof (intro allI impI)
    fix i
    assume a: "first_best (\<lambda>j. WRatio fz (name_clean ?reg) (s_name_clean (?sv ! j))) (length ?sv) i \<and>
                85 \<le> WRatio fz (name_clean ?reg) (s_name_clean (?sv ! i))"
    then have ne: "name_clean ?row \<noteq> []" using assms(5) nm by (metis not_less)
    have fb: "first_best (\<lambda>j. WRatio fz (name_clean ?row) (s_name_clean (?sv ! j))) (length ?sv) i"
      and sc: "85 \<le> WRatio fz (name_clean ?row) (s_name_clean (?sv ! i))"
      using a nm by simp_all
    from fuzzy_adopts[OF e n ne fb sc] row nm
    show "rs ! k = ?row\<lparr>retention_status := s_Status (?sv ! i), match_type := ''Name_Fuzzy'',
                 match_confidence := WRatio fz (name_clean ?reg) (s_name_clean (?sv ! i))\<rparr>"
      by simp
  qed
  show ?thesis using rs len assms(2) rej ado by auto
qed

theorem C3_fuzzy_stage_witness:
  "(\<exists>rs. match_members smith_fuzz smith_dp 2023 = Inr rs \<and>
      retention_status (rs ! 0) = ''Still in PEI'' \<and> match_type (rs ! 0) = ''Name_Fuzzy'' \<and>
      match_confidence (rs ! 0) = 95) \<and>
   (\<exists>rs. match_members sample_fuzz blank_email_dp 2023 = Inr rs \<and>
      rs ! 0 = init_result (registrations_for blank_email_dp 2023 ! 0))"
proof -
  have y: "(2023::int) = 2023 \<or> (2023::int) = 2024" by simp
  have k1: "0 < length (registrations_for smith_dp 2023)" by code_simp
  have e1: "email_clean (registrations_for smith_dp 2023 ! 0) = [] \<or>
         (\<forall>s\<in>set (retention_survey smith_dp).
            s_email_clean s \<noteq> email_clean (registrations_for smith_dp 2023 ! 0))" by code_simp
  have n1: "name_clean (registrations_for smith_dp 2023 ! 0) = [] \<or>
         (\<forall>s\<in>set (retention_survey smith_dp).
            s_name_clean s \<noteq> name_clean (registrations_for smith_dp 2023 ! 0))" by code_simp
  have l1: "\<forall>c. WRatio smith_fuzz [] c < 85"
    by (simp add: smith_fuzz_def table_scorer_def sample_scorer_def)
  have f1: "first_best (\<lambda>j. WRatio smith_fuzz (name_clean (registrations_for smith_dp 2023 ! 0))
                                  (s_name_clean (retention_survey smith_dp ! j)))
                   (length (retention_survey smith_dp)) 1 \<and>
                85 \<le> WRatio smith_fuzz (name_clean (registrations_for smith_dp 2023 ! 0))
                       (s_name_clean (retention_survey smith_dp ! 1))" by code_simp
  have v1: "s_Status (retention_survey smith_dp ! 1) = ''Still in PEI''"
    "WRatio smith_fuzz (name_clean (registrations_for smith_dp 2023 ! 0))
       (s_name_clean (retention_survey smith_dp ! 1)) = 95" by code_simp+
  have k2: "0 < length (registrations_for blank_email_dp 2023)" by code_simp
  have e2: "email_clean (registrations_for blank_email_dp 2023 ! 0) = [] \<or>
         (\<forall>s\<in>set (retention_survey blank_email_dp).
            s_email_clean s \<noteq> email_clean (registrations_for blank_email_dp 2023 ! 0))" by code_simp
  have n2: "name_clean (registrations_for blank_email_dp 2023 ! 0) = [] \<or>
         (\<forall>s\<in>set (retention_survey blank_email_dp).
            s_name_clean s \<noteq> name_clean (registrations_for blank_email_dp 2023 ! 0))" by code_simp
  have l2: "\<forall>c. WRatio sample_fuzz [] c < 85" by (simp add: sample_fuzz_def sample_scorer_def)
  have r2: "\<forall>s\<in>set (retention_survey blank_email_dp).
               WRatio sample_fuzz (name_clean (registrations_for blank_email_dp 2023 ! 0))
                 (s_name_clean s) < 85" by code_simp
  from C3_fuzzy_stage[OF y k1 e1 n1 l1] obtain rs where
    m: "match_members smith_fuzz smith_dp 2023 = Inr rs" and
    a: "\<forall>i. first_best (\<lambda>j. WRatio smith_fuzz (name_clean (registrations_for smith_dp 2023 ! 0))
                                  (s_name_clean (retention_survey smith_dp ! j)))
                   (length (retention_survey smith_dp)) i \<and>
                85 \<le> WRatio smith_fuzz (name_clean (registrations_for smith_dp 2023 ! 0))
                       (s_name_clean (retention_survey smith_dp ! i)) \<longrightarrow>
              rs ! 0 = (init_result (registrations_for smith_dp 2023 ! 0))
                \<lparr>retention_status := s_Status (retention_survey smith_dp ! i),
                 match_type := ''Name_Fuzzy'',
                 match_confidence := WRatio smith_fuzz (name_clean (registrations_for smith_dp 2023 ! 0))
                                       (s_name_clean (retention_survey smith_dp ! i))\<rparr>"
    by blast
  have "rs ! 0 = (init_result (registrations_for smith_dp 2023 ! 0))
                \<lparr>retention_status := s_Status (retention_survey smith_dp ! 1),
                 match_type := ''Name_Fuzzy'',
                 match_confidence := WRatio smith_fuzz (name_clean (registrations_for smith_dp 2023 ! 0))
                                       (s_name_clean (retention_survey smith_dp ! 1))\<rparr>"
    by (rule a[rule_format, OF f1])
  then have "retention_status (rs ! 0) = ''Still in PEI'' \<and> match_type (rs ! 0) = ''Name_Fuzzy'' \<and>
      match_confidence (rs ! 0) = 95"
    by (simp only: v1 result_fields simp_thms)
  with m have first: "\<exists>rs. match_members smith_fuzz smith_dp 2023 = Inr rs \<and>
      retention_status (rs ! 0) = ''Still in PEI'' \<and> match_type (rs ! 0) = ''Name_Fuzzy'' \<and>
      match_confidence (rs ! 0) = 95" by blast
  from C3_fuzzy_stage[OF y k2 e2 n2 l2] r2
  have "\<exists>rs. match_members sample_fuzz blank_email_dp 2023 = Inr rs \<and>
      rs ! 0 = init_result (registrations_for blank_email_dp 2023 ! 0)" by blast
  with first show ?thesis by blast
qed









text \<open>
  C7 (as amended).  The diagnostics go through the registrations that are unresolved
  after \<open>match_members\<close>, in order, and return one entry for every registration with
  at least one candidate: the registration's name and email and the first 5 of its
  candidates in the order of collection, which is: partial-name candidates (of the 3
  best-scoring survey names for the first and last token, those with a score of at
  least 70), email candidates (every survey row whose email matches the pattern of the
  registration's domain and whose user name has a similarity of at least 60), and
  name-variant candidates (for every variant, of the 2 best-scoring survey names, those
  with a score of at least 80).  The candidates are collected across the three
  strategies; every one comes from a survey row and meets the display threshold of its
  kind.  The diagnostics fail when the pattern of some domain is rejected.
\<close>

theorem C7_diagnostics_candidates:
  "((\<exists>p\<in>set unmatched. CHR ''@'' \<in> set (email_clean p) \<and>
                        re (domain_pattern (email_clean p)) = None) \<longrightarrow>
      find_potential_matches re fz survey unmatched = Inl ReError) \<and>
   ((\<forall>p\<in>set unmatched. CHR ''@'' \<in> set (email_clean p) \<longrightarrow>
                        re (domain_pattern (email_clean p)) \<noteq> None) \<longrightarrow>
      find_potential_matches re fz survey unmatched =
        Inr (map (\<lambda>p. \<lparr>registration_name = Name p, registration_email = Email p,
                       potential_matches = take 5 (collected re fz survey p)\<rparr>)
               (filter (\<lambda>p. collected re fz survey p \<noteq> []) unmatched))) \<and>
   (\<forall>sugg. find_potential_matches re fz survey unmatched = Inr sugg \<longrightarrow>
      length sugg \<le> length unmatched \<and>
      (\<forall>e\<in>set sugg.
         potential_matches e \<noteq> [] \<and> length (potential_matches e) \<le> 5 \<and>
         (\<forall>c\<in>set (potential_matches e). display_ok c \<and> from_survey survey c))) \<and>
   (\<forall>a self'. analyze_unmatched_records re fz self yr = Inr (a, self') \<longrightarrow>
      (\<exists>rs. match_members fz (data_processor self) yr = Inr rs \<and>
            find_potential_matches re fz (retention_survey (data_processor self))
              (filter (\<lambda>r. retention_status r = ''Unknown'') rs) = Inr (a_potential_matches a)))"
proof (intro conjI impI allI)
  assume "\<exists>p\<in>set unmatched. CHR ''@'' \<in> set (email_clean p) \<and>
                        re (domain_pattern (email_clean p)) = None"
  then show "find_potential_matches re fz survey unmatched = Inl ReError"
    using find_potential_matches_fails by blast
next
  assume "\<forall>p\<in>set unmatched. CHR ''@'' \<in> set (email_clean p) \<longrightarrow>
                        re (domain_pattern (email_clean p)) \<noteq> None"
  then show "find_potential_matches re fz survey unmatched =
        Inr (map (\<lambda>p. \<lparr>registration_name = Name p, registration_email = Email p,
                       potential_matches = take 5 (collected re fz survey p)\<rparr>)
               (filter (\<lambda>p. collected re fz survey p \<noteq> []) unmatched))"
    by (rule find_potential_matches_collected)
next
  fix a self' assume "analyze_unmatched_records re fz self yr = Inr (a, self')"
  then show "\<exists>rs. match_members fz (data_processor self) yr = Inr rs \<and>
            find_potential_matches re fz (retention_survey (data_processor self))
              (filter (\<lambda>r. retention_status r = ''Unknown'') rs) = Inr (a_potential_matches a)"
    by (rule analyze_potential_matches)
next
  fix sugg assume fp: "find_potential_matches re fz survey unmatched = Inr sugg"
  have ok: "\<forall>p\<in>set unmatched. CHR ''@'' \<in> set (email_clean p) \<longrightarrow>
                        re (domain_pattern (email_clean p)) \<noteq> None"
  proof (rule ccontr)
    assume "\<not> ?thesis"
    then obtain p where "p \<in> set unmatched" "CHR ''@'' \<in> set (email_clean p)"
      "re (domain_pattern (email_clean p)) = None" by blast
    then have "find_potential_matches re fz survey unmatched = Inl ReError"
      by (rule find_potential_matches_fails)
    with fp show False by simp
  qed
  from find_potential_matches_collected[OF ok, of fz survey] fp
  have sugg: "sugg = map (\<lambda>p. \<lparr>registration_name = Name p, registration_email = Email p,
                       potential_matches = take 5 (collected re fz survey p)\<rparr>)
               (filter (\<lambda>p. collected re fz survey p \<noteq> []) unmatched)" by simp
  show "length sugg \<le> length unmatched" unfolding sugg by simp
  show "\<forall>e\<in>set sugg.
         potential_matches e \<noteq> [] \<and> length (potential_matches e) \<le> 5 \<and>
         (\<forall>c\<in>set (potential_matches e). display_ok c \<and> from_survey survey c)"
  proof
    fix e assume "e \<in> set sugg"
    then obtain p where ne: "collected re fz survey p \<noteq> []"
      and pm: "potential_matches e = take 5 (collected re fz survey p)"
      unfolding sugg by auto
    have "\<forall>c\<in>set (potential_matches e). display_ok c \<and> from_survey survey c"
      unfolding pm using collected_props[of re fz survey p] by (auto dest: in_set_takeD)
    then show "potential_matches e \<noteq> [] \<and> length (potential_matches e) \<le> 5 \<and>
         (\<forall>c\<in>set (potential_matches e). display_ok c \<and> from_survey survey c)"
      using ne pm by simp
  qed
qed

theorem C7_diagnostics_candidates_witness:
  "find_potential_matches (\<lambda>p. None) bturner_fuzz (retention_survey bturner_dp)
     [init_result (registrations_2023 bturner_dp ! 0)] = Inl ReError \<and>
   map_sum id (map (\<lambda>e. (registration_name e,
                          map (\<lambda>c. (ctype c, score c, matched_name c, variant_used c))
                            (potential_matches e))))
     (find_potential_matches sample_re bturner_fuzz (retention_survey bturner_dp)
        [init_result (registrations_2023 bturner_dp ! 0)]) =
     Inr [(''Bill Turner'',
           [(''partial_name'', 80, ''William Turner'', None),
            (''email_domain'', 86, ''William Turner'', None),
            (''name_variant'', 100, ''William Turner'', Some ''william turner'')])] \<and>
   (\<exists>sugg. find_potential_matches sample_re bturner_fuzz (retention_survey bturner_dp)
        [init_result (registrations_2023 bturner_dp ! 0)] = Inr sugg \<and>
      (\<forall>e\<in>set sugg. \<forall>c\<in>set (potential_matches e). display_ok c)) \<and>
   (\<exists>a self' rs. analyze_unmatched_records sample_re bturner_fuzz
        \<lparr>data_processor = bturner_dp, unmatched_analysis = Map.empty\<rparr> 2023 = Inr (a, self') \<and>
      match_members bturner_fuzz bturner_dp 2023 = Inr rs \<and>
      find_potential_matches sample_re bturner_fuzz (retention_survey bturner_dp)
        (filter (\<lambda>r. retention_status r = ''Unknown'') rs) = Inr (a_potential_matches a))"
proof -
  let ?un = "[init_result (registrations_2023 bturner_dp ! 0)]"
  let ?sv = "retention_survey bturner_dp"
  let ?self = "\<lparr>data_processor = bturner_dp, unmatched_analysis = Map.empty\<rparr>"
  note C0 = C7_diagnostics_candidates[of ?un "\<lambda>p. None" bturner_fuzz ?sv ?self 2023]
  note C = C7_diagnostics_candidates[of ?un sample_re bturner_fuzz ?sv ?self 2023]
  have h0: "\<exists>p\<in>set ?un. CHR ''@'' \<in> set (email_clean p) \<and>
              (\<lambda>p. None :: (string \<Rightarrow> bool) option) (domain_pattern (email_clean p)) = None"
    by code_simp
  from C0 h0 have 1: "find_potential_matches (\<lambda>p. None) bturner_fuzz ?sv ?un = Inl ReError"
    by blast
  have h: "\<forall>p\<in>set ?un. CHR ''@'' \<in> set (email_clean p) \<longrightarrow>
             sample_re (domain_pattern (email_clean p)) \<noteq> None"
    by (simp add: sample_re_def)
  from C h have eq: "find_potential_matches sample_re bturner_fuzz ?sv ?un =
        Inr (map (\<lambda>p. \<lparr>registration_name = Name p, registration_email = Email p,
                       potential_matches = take 5 (collected sample_re bturner_fuzz ?sv p)\<rparr>)
               (filter (\<lambda>p. collected sample_re bturner_fuzz ?sv p \<noteq> []) ?un))"
    by blast
  have ev: "map_sum id (map (\<lambda>e. (registration_name e,
                          map (\<lambda>c. (ctype c, score c, matched_name c, variant_used c))
                            (potential_matches e))))
      (Inr (map (\<lambda>p. \<lparr>registration_name = Name p, registration_email = Email p,
                       potential_matches = take 5 (collected sample_re bturner_fuzz ?sv p)\<rparr>)
               (filter (\<lambda>p. collected sample_re bturner_fuzz ?sv p \<noteq> []) ?un)) :: error + suggestion list) =
     Inr [(''Bill Turner'',
           [(''partial_name'', 80, ''William Turner'', None),
            (''email_domain'', 86, ''William Turner'', None),
            (''name_variant'', 100, ''William Turner'', Some ''william turner'')])]"
    by code_simp
  have 2: "map_sum id (map (\<lambda>e. (registration_name e,
                          map (\<lambda>c. (ctype c, score c, matched_name c, variant_used c))
                            (potential_matches e))))
     (find_potential_matches sample_re bturner_fuzz ?sv ?un) =
     Inr [(''Bill Turner'',
           [(''partial_name'', 80, ''William Turner'', None),
            (''email_domain'', 86, ''William Turner'', None),
            (''name_variant'', 100, ''William Turner'', Some ''william turner'')])]"
    unfolding eq by (rule ev)
  from eq obtain sugg where s: "find_potential_matches sample_re bturner_fuzz ?sv ?un = Inr sugg"
    by blast
  with C have 3: "\<forall>e\<in>set sugg. \<forall>c\<in>set (potential_matches e). display_ok c" by blast
  have y: "(2023::int) = 2023 \<or> (2023::int) = 2024" by simp
  have r: "registrations_for (data_processor ?self) 2023 \<noteq> []" by code_simp
  have re: "\<forall>p. sample_re p \<noteq> None" by (simp add: sample_re_def)
  from analyze_total[OF y r re, of bturner_fuzz] obtain a self' where
    an: "analyze_unmatched_records sample_re bturner_fuzz ?self 2023 = Inr (a, self')" by blast
  with C obtain rs where "match_members bturner_fuzz (data_processor ?self) 2023 = Inr rs"
    "find_potential_matches sample_re bturner_fuzz (retention_survey (data_processor ?self))
        (filter (\<lambda>r. retention_status r = ''Unknown'') rs) = Inr (a_potential_matches a)"
    by blast
  then have 4: "match_members bturner_fuzz bturner_dp 2023 = Inr rs \<and>
      find_potential_matches sample_re bturner_fuzz ?sv
        (filter (\<lambda>r. retention_status r = ''Unknown'') rs) = Inr (a_potential_matches a)"
    by simp
  from 1 2 3 4 s an show ?thesis by blast
qed

text \<open>
  Not every qualifying match is collected.  The registration \<open>Flynn\<close> of \<open>lee_dp\<close>
  is unresolved after both matching stages; its email user name \<open>lee\<close> has a
  similarity of 67 to the user name \<open>leo\<close> of the survey row, above the display
  threshold 60 of the email kind, but the domains differ, so the diagnostics do not
  collect the row and return no entry.
\<close>

theorem C7_other_domain_counterexample:
  "map_sum id (map (\<lambda>r. (retention_status r, match_type r, match_confidence r)))
     (improved_matching lee_fuzz lee_dp 2023 75) = Inr [(''Unknown'', ''None'', 0)] \<and>
   60 \<le> ratio lee_fuzz (username_of (email_clean (registrations_2023 lee_dp ! 0)))
          (username_of (s_email_clean (retention_survey lee_dp ! 0))) \<and>
   find_potential_matches sample_re lee_fuzz (retention_survey lee_dp)
     [init_result (registrations_2023 lee_dp ! 0)] = Inr [] \<and>
   map_sum id (map (\<lambda>a. a_potential_matches (fst a)))
     (map_sum id (\<lambda>a. [a])
        (analyze_unmatched_records sample_re lee_fuzz
           \<lparr>data_processor = lee_dp, unmatched_analysis = Map.empty\<rparr> 2023)) = Inr [[]]"
  by code_simp

text \<open>
  C8.  When \<open>analyze_unmatched_records\<close> returns, the data processor of the analyzer
  is unchanged, so both matching stages give the same results after the diagnostics as
  before, for every year, scorer and threshold; the unmatched records of the analysis
  are the \<open>Unknown\<close> rows of \<open>match_members\<close> as they are.
\<close>

theorem C8_diagnostics_frame:
  assumes "analyze_unmatched_records re fz self yr = Inr (a, self')"
  shows "data_processor self' = data_processor self \<and>
         match_members fz' (data_processor self') y = match_members fz' (data_processor self) y \<and>
         improved_matching fz' (data_processor self') y t =
           improved_matching fz' (data_processor self) y t \<and>
         (\<exists>rs. match_members fz (data_processor self) yr = Inr rs \<and>
               unmatched_records a = filter (\<lambda>r. retention_status r = ''Unknown'') rs \<and>
               total_unmatched a = length (unmatched_records a))"
proof -
  from assms obtain rs pm where rs: "match_members fz (data_processor self) yr = Inr rs"
    and a: "a = \<lparr>a_year = yr,
                 total_registrations = length (if yr = 2023 then registrations_2023 (data_processor self)
                              else registrations_2024 (data_processor self)),
                 total_unmatched = length (filter (\<lambda>row. retention_status row = ''Unknown'') rs),
                 unmatched_records = filter (\<lambda>row. retention_status row = ''Unknown'') rs,
                 a_potential_matches = pm\<rparr>"
    and s: "self' = self\<lparr>unmatched_analysis := (unmatched_analysis self)(yr \<mapsto> a)\<rparr>"
    by (auto simp: analyze_unmatched_records_def Let_def split: if_splits sum.splits)
  from s have "data_processor self' = data_processor self" by simp
  then show ?thesis using rs a by simp
qed

theorem C8_diagnostics_frame_witness:
  "\<exists>a self'. analyze_unmatched_records sample_re turner_fuzz
        \<lparr>data_processor = turner_dp, unmatched_analysis = Map.empty\<rparr> 2023 = Inr (a, self') \<and>
      data_processor self' = turner_dp \<and>
      match_members turner_fuzz (data_processor self') 2023 = match_members turner_fuzz turner_dp 2023 \<and>
      improved_matching turner_fuzz (data_processor self') 2023 75 =
        improved_matching turner_fuzz turner_dp 2023 75"
proof -
  let ?self = "\<lparr>data_processor = turner_dp, unmatched_analysis = Map.empty\<rparr>"
  have y: "(2023::int) = 2023 \<or> (2023::int) = 2024" by simp
  have r: "registrations_for (data_processor ?self) 2023 \<noteq> []" by code_simp
  have re: "\<forall>p. sample_re p \<noteq> None" by (simp add: sample_re_def)
  from analyze_total[OF y r re, of turner_fuzz] obtain a self' where
    an: "analyze_unmatched_records sample_re turner_fuzz ?self 2023 = Inr (a, self')" by blast
  from C8_diagnostics_frame[OF an, of turner_fuzz 2023 75] an show ?thesis by auto
qed

text \<open>
  C1 (as amended).  For every registration still \<open>Unknown\<close> after \<open>match_members\<close>,
  \<open>improved_matching\<close> tries three strategies in a fixed order, and the first that
  accepts decides the row, with its similarity as confidence:
  partial name (the best-scoring survey name for the first and last token scores at
  least the threshold; method \<open>Partial_Name\<close>), then phonetic (the first survey name in
  load order whose vowel-free form has a similarity of at least the threshold plus 10,
  both forms longer than 3; method \<open>Phonetic\<close>), then email user name (the first
  survey email in load order whose user name has a similarity of at least the
  threshold; method \<open>Email_Username\<close>, the row taking the status of the first survey
  row with the name found, and staying as it is when that name is empty).  When none
  accepts the row stays as it is.  There is no name-variant strategy: the row is
  determined by these three, and no row has the method \<open>Name_Variant\<close>.
\<close>

theorem C1_second_pass_strategies:
  assumes "year = 2023 \<or> year = 2024"
  shows "\<exists>rs rs'. match_members fz dp year = Inr rs \<and> improved_matching fz dp year t = Inr rs' \<and>
           length rs = length (registrations_for dp year) \<and> length rs' = length rs \<and>
           (\<forall>k<length rs.
              match_type (rs' ! k) \<noteq> ''Name_Variant'' \<and>
              name_clean (rs ! k) = name_clean (registrations_for dp year ! k) \<and>
              email_clean (rs ! k) = email_clean (registrations_for dp year ! k) \<and>
              (retention_status (rs ! k) = ''Unknown'' \<longrightarrow>
                 (\<forall>i. partial_name_accepts fz (retention_survey dp) t (name_clean (rs ! k)) i \<longrightarrow>
                      rs' ! k = matched_as (rs ! k) (retention_survey dp ! i) ''Partial_Name''
                                  (WRatio fz (first_last (split_ws (name_clean (rs ! k))))
                                     (s_name_clean (retention_survey dp ! i)))) \<and>
                 (partial_name_rejects fz (retention_survey dp) t (name_clean (rs ! k)) \<longrightarrow>
                    (\<forall>i. phonetic_accepts fz (retention_survey dp) t (name_clean (rs ! k)) i \<longrightarrow>
                         rs' ! k = matched_as (rs ! k) (retention_survey dp ! i) ''Phonetic''
                                     (ratio fz (consonants (name_clean (rs ! k)))
                                        (consonants (s_name_clean (retention_survey dp ! i))))) \<and>
                    (phonetic_rejects fz (retention_survey dp) t (name_clean (rs ! k)) \<longrightarrow>
                       (\<forall>i j. email_username_accepts fz (retention_survey dp) t (email_clean (rs ! k)) i \<and>
                              s_name_clean (retention_survey dp ! i) \<noteq> [] \<and>
                              first_row_with (\<lambda>s. s_name_clean s = s_name_clean (retention_survey dp ! i))
                                (retention_survey dp) j \<longrightarrow>
                              rs' ! k = matched_as (rs ! k) (retention_survey dp ! j) ''Email_Username''
                                          (ratio fz (username_of (email_clean (rs ! k)))
                                             (username_of (s_email_clean (retention_survey dp ! i))))) \<and>
                       (\<forall>i. email_username_accepts fz (retention_survey dp) t (email_clean (rs ! k)) i \<and>
                            s_name_clean (retention_survey dp ! i) = [] \<longrightarrow> rs' ! k = rs ! k) \<and>
                       (email_username_rejects fz (retention_survey dp) t (email_clean (rs ! k)) \<longrightarrow>
                          rs' ! k = rs ! k)))))"
proof -
  let ?sv = "retention_survey dp"
  from improved_matching_valid[OF assms, of fz dp t] obtain rs rs' where
    rs: "match_members fz dp year = Inr rs" and rs': "improved_matching fz dp year t = Inr rs'"
    and len0: "length rs = length (registrations_for dp year)"
    and len: "length rs' = length rs"
    and rows: "\<forall>i<length rs.
              (retention_status (rs ! i) = ''Unknown'' \<longrightarrow>
                 (\<exists>st. search_person fz ?sv t (rs ! i) = Inr st \<and>
                       apply_best ?sv st (rs ! i) = Inr (rs' ! i)))"
    by blast
  from pipeline_rows[OF assms, of fz dp t] rs rs' have shape:
    "\<forall>i<length rs.
        (unmatched_row (rs ! i) \<or>
         matched_row ?sv {''Email'', ''Name_Exact'', ''Name_Fuzzy''} 85 (rs ! i)) \<and>
        (rs' ! i = rs ! i \<or>
         matched_row ?sv {''Partial_Name'', ''Phonetic'', ''Email_Username''} t (rs' ! i))"
    by auto
  have "\<forall>k<length rs.
              match_type (rs' ! k) \<noteq> ''Name_Variant'' \<and>
              name_clean (rs ! k) = name_clean (registrations_for dp year ! k) \<and>
              email_clean (rs ! k) = email_clean (registrations_for dp year ! k) \<and>
              (retention_status (rs ! k) = ''Unknown'' \<longrightarrow>
                 (\<forall>i. partial_name_accepts fz ?sv t (name_clean (rs ! k)) i \<longrightarrow>
                      rs' ! k = matched_as (rs ! k) (?sv ! i) ''Partial_Name''
                                  (WRatio fz (first_last (split_ws (name_clean (rs ! k))))
                                     (s_name_clean (?sv ! i)))) \<and>
                 (partial_name_rejects fz ?sv t (name_clean (rs ! k)) \<longrightarrow>
                    (\<forall>i. phonetic_accepts fz ?sv t (name_clean (rs ! k)) i \<longrightarrow>
                         rs' ! k = matched_as (rs ! k) (?sv ! i) ''Phonetic''
                                     (ratio fz (consonants (name_clean (rs ! k)))
                                        (consonants (s_name_clean (?sv ! i))))) \<and>
                    (phonetic_rejects fz ?sv t (name_clean (rs ! k)) \<longrightarrow>
                       (\<forall>i j. email_username_accepts fz ?sv t (email_clean (rs ! k)) i \<and>
                              s_name_clean (?sv ! i) \<noteq> [] \<and>
                              first_row_with (\<lambda>s. s_name_clean s = s_name_clean (?sv ! i)) ?sv j \<longrightarrow>
                              rs' ! k = matched_as (rs ! k) (?sv ! j) ''Email_Username''
                                          (ratio fz (username_of (email_clean (rs ! k)))
                                             (username_of (s_email_clean (?sv ! i))))) \<and>
                       (\<forall>i. email_username_accepts fz ?sv t (email_clean (rs ! k)) i \<and>
                            s_name_clean (?sv ! i) = [] \<longrightarrow> rs' ! k = rs ! k) \<and>
                       (email_username_rejects fz ?sv t (email_clean (rs ! k)) \<longrightarrow>
                          rs' ! k = rs ! k))))"
    (is "\<forall>k<length rs. ?V k \<and> ?N k \<and> ?E k \<and> ?U k")
  proof (intro allI impI)
    fix k assume k: "k < length rs"
    have "match_type (rs ! k) \<noteq> ''Name_Variant''"
      using shape k by (auto simp: unmatched_row_def matched_row_def)
    moreover have "rs' ! k \<noteq> rs ! k \<longrightarrow> match_type (rs' ! k) \<noteq> ''Name_Variant''"
      using shape k by (auto simp: matched_row_def)
    ultimately have v: "?V k" by metis
    from match_members_keeps[OF assms rs k] have ne: "?N k" "?E k" by simp_all
    have u: "?U k"
    proof
      assume "retention_status (rs ! k) = ''Unknown''"
      then obtain st where sp: "search_person fz ?sv t (rs ! k) = Inr st"
        and ab: "apply_best ?sv st (rs ! k) = Inr (rs' ! k)" using rows k by blast
      note P = second_pass_partial_name[OF sp ab] and Ph = second_pass_phonetic[OF sp ab]
        and E = second_pass_email_username[OF sp ab] and N = second_pass_none[OF sp ab]
      show "(\<forall>i. partial_name_accepts fz ?sv t (name_clean (rs ! k)) i \<longrightarrow>
                      rs' ! k = matched_as (rs ! k) (?sv ! i) ''Partial_Name''
                                  (WRatio fz (first_last (split_ws (name_clean (rs ! k))))
                                     (s_name_clean (?sv ! i)))) \<and>
                 (partial_name_rejects fz ?sv t (name_clean (rs ! k)) \<longrightarrow>
                    (\<forall>i. phonetic_accepts fz ?sv t (name_clean (rs ! k)) i \<longrightarrow>
                         rs' ! k = matched_as (rs ! k) (?sv ! i) ''Phonetic''
                                     (ratio fz (consonants (name_clean (rs ! k)))
                                        (consonants (s_name_clean (?sv ! i))))) \<and>
                    (phonetic_rejects fz ?sv t (name_clean (rs ! k)) \<longrightarrow>
                       (\<forall>i j. email_username_accepts fz ?sv t (email_clean (rs ! k)) i \<and>
                              s_name_clean (?sv ! i) \<noteq> [] \<and>
                              first_row_with (\<lambda>s. s_name_clean s = s_name_clean (?sv ! i)) ?sv j \<longrightarrow>
                              rs' ! k = matched_as (rs ! k) (?sv ! j) ''Email_Username''
                                          (ratio fz (username_of (email_clean (rs ! k)))
                                             (username_of (s_email_clean (?sv ! i))))) \<and>
                       (\<forall>i. email_username_accepts fz ?sv t (email_clean (rs ! k)) i \<and>
                            s_name_clean (?sv ! i) = [] \<longrightarrow> rs' ! k = rs ! k) \<and>
                       (email_username_rejects fz ?sv t (email_clean (rs ! k)) \<longrightarrow>
                          rs' ! k = rs ! k)))"
        using P Ph E N by blast
    qed
    from v ne u show "?V k \<and> ?N k \<and> ?E k \<and> ?U k" by blast
  qed
  then show ?thesis using rs rs' len0 len by blast
qed

theorem C1_second_pass_strategies_witness:
  "(\<exists>rs'. improved_matching turner_fuzz turner_dp 2023 75 = Inr rs' \<and>
      retention_status (rs' ! 0) = ''Still in PEI'' \<and> match_type (rs' ! 0) = ''Partial_Name'' \<and>
      match_confidence (rs' ! 0) = 80) \<and>
   (\<exists>rs'. improved_matching mohammed_fuzz mohammed_dp 2023 75 = Inr rs' \<and>
      retention_status (rs' ! 0) = ''Still in PEI'' \<and> match_type (rs' ! 0) = ''Phonetic'' \<and>
      match_confidence (rs' ! 0) = 89) \<and>
   (\<exists>rs'. improved_matching jsmith_fuzz jsmith_dp 2023 75 = Inr rs' \<and>
      retention_status (rs' ! 0) = ''No longer in PEI'' \<and> match_type (rs' ! 0) = ''Email_Username'' \<and>
      match_confidence (rs' ! 0) = 92) \<and>
   (\<exists>rs'. improved_matching sample_fuzz blank_email_dp 2023 75 = Inr rs' \<and>
      rs' ! 0 = init_result (registrations_for blank_email_dp 2023 ! 0)) \<and>
   (\<exists>rs'. improved_matching jsmith_fuzz noname_dp 2023 75 = Inr rs' \<and>
      rs' ! 0 = init_result (registrations_for noname_dp 2023 ! 0)) \<and>
   (phonetic_accepts turner_fuzz (retention_survey turner_dp) 72 ''bill turner'' 0 \<and>
    (\<exists>rs'. improved_matching turner_fuzz turner_dp 2023 72 = Inr rs' \<and>
       match_type (rs' ! 0) = ''Partial_Name'' \<and> match_confidence (rs' ! 0) = 80))"
proof -
  have y: "(2023::int) = 2023 \<or> (2023::int) = 2024" by simp
  have 1: "\<exists>rs'. improved_matching turner_fuzz turner_dp 2023 75 = Inr rs' \<and>
      retention_status (rs' ! 0) = ''Still in PEI'' \<and> match_type (rs' ! 0) = ''Partial_Name'' \<and>
      match_confidence (rs' ! 0) = 80"
  proof -
    let ?p = "init_result (registrations_for turner_dp 2023 ! 0)"
    let ?sv = "retention_survey turner_dp"
    have ev: "match_members turner_fuzz turner_dp 2023 = Inr [?p]" by code_simp
    from C1_second_pass_strategies[OF y, of turner_fuzz turner_dp 75] obtain rs rs' where
      rs: "match_members turner_fuzz turner_dp 2023 = Inr rs"
      and rs': "improved_matching turner_fuzz turner_dp 2023 75 = Inr rs'"
      and rows: "\<forall>k<length rs. retention_status (rs ! k) = ''Unknown'' \<longrightarrow>
                 (\<forall>i. partial_name_accepts turner_fuzz ?sv 75 (name_clean (rs ! k)) i \<longrightarrow>
                      rs' ! k = matched_as (rs ! k) (?sv ! i) ''Partial_Name''
                                  (WRatio turner_fuzz (first_last (split_ws (name_clean (rs ! k))))
                                     (s_name_clean (?sv ! i))))"
      by blast
    from ev rs have rs0: "rs = [?p]" by simp
    have u: "retention_status ?p = ''Unknown''" by (simp add: init_result_def)
    have acc: "partial_name_accepts turner_fuzz ?sv 75 (name_clean ?p) 0" by code_simp
    from rows rs0 u acc have
      "rs' ! 0 = matched_as ?p (?sv ! 0) ''Partial_Name''
                   (WRatio turner_fuzz (first_last (split_ws (name_clean ?p))) (s_name_clean (?sv ! 0)))"
      by simp
    moreover have "retention_status (matched_as ?p (?sv ! 0) ''Partial_Name''
                   (WRatio turner_fuzz (first_last (split_ws (name_clean ?p))) (s_name_clean (?sv ! 0))))
                   = ''Still in PEI''"
      "match_type (matched_as ?p (?sv ! 0) ''Partial_Name''
                   (WRatio turner_fuzz (first_last (split_ws (name_clean ?p))) (s_name_clean (?sv ! 0))))
                   = ''Partial_Name''"
      "match_confidence (matched_as ?p (?sv ! 0) ''Partial_Name''
                   (WRatio turner_fuzz (first_last (split_ws (name_clean ?p))) (s_name_clean (?sv ! 0))))
                   = 80"
      by code_simp+
    ultimately show ?thesis using rs' by simp
  qed
  have 2: "\<exists>rs'. improved_matching mohammed_fuzz mohammed_dp 2023 75 = Inr rs' \<and>
      retention_status (rs' ! 0) = ''Still in PEI'' \<and> match_type (rs' ! 0) = ''Phonetic'' \<and>
      match_confidence (rs' ! 0) = 89"
  proof -
    let ?p = "init_result (registrations_for mohammed_dp 2023 ! 0)"
    let ?sv = "retention_survey mohammed_dp"
    have ev: "match_members mohammed_fuzz mohammed_dp 2023 = Inr [?p]" by code_simp
    from C1_second_pass_strategies[OF y, of mohammed_fuzz mohammed_dp 75] obtain rs rs' where
      rs: "match_members mohammed_fuzz mohammed_dp 2023 = Inr rs"
      and rs': "improved_matching mohammed_fuzz mohammed_dp 2023 75 = Inr rs'"
      and rows: "\<forall>k<length rs. retention_status (rs ! k) = ''Unknown'' \<longrightarrow>
                 partial_name_rejects mohammed_fuzz ?sv 75 (name_clean (rs ! k)) \<longrightarrow>
                    (\<forall>i. phonetic_accepts mohammed_fuzz ?sv 75 (name_clean (rs ! k)) i \<longrightarrow>
                         rs' ! k = matched_as (rs ! k) (?sv ! i) ''Phonetic''
                                     (ratio mohammed_fuzz (consonants (name_clean (rs ! k)))
                                        (consonants (s_name_clean (?sv ! i)))))"
      by blast
    from ev rs have rs0: "rs = [?p]" by simp
    have u: "retention_status ?p = ''Unknown''" by (simp add: init_result_def)
    have rej: "partial_name_rejects mohammed_fuzz ?sv 75 (name_clean ?p)" by code_simp
    have acc: "phonetic_accepts mohammed_fuzz ?sv 75 (name_clean ?p) 0" by code_simp
    from rows rs0 u rej acc have
      "rs' ! 0 = matched_as ?p (?sv ! 0) ''Phonetic''
                   (ratio mohammed_fuzz (consonants (name_clean ?p)) (consonants (s_name_clean (?sv ! 0))))"
      by simp
    moreover have "retention_status (matched_as ?p (?sv ! 0) ''Phonetic''
                   (ratio mohammed_fuzz (consonants (name_clean ?p)) (consonants (s_name_clean (?sv ! 0)))))
                   = ''Still in PEI''"
      "match_type (matched_as ?p (?sv ! 0) ''Phonetic''
                   (ratio mohammed_fuzz (consonants (name_clean ?p)) (consonants (s_name_clean (?sv ! 0)))))
                   = ''Phonetic''"
      "match_confidence (matched_as ?p (?sv ! 0) ''Phonetic''
                   (ratio mohammed_fuzz (consonants (name_clean ?p)) (consonants (s_name_clean (?sv ! 0)))))
                   = 89"
      by code_simp+
    ultimately show ?thesis using rs' by simp
  qed
  have 3: "\<exists>rs'. improved_matching jsmith_fuzz jsmith_dp 2023 75 = Inr rs' \<and>
      retention_status (rs' ! 0) = ''No longer in PEI'' \<and> match_type (rs' ! 0) = ''Email_Username'' \<and>
      match_confidence (rs' ! 0) = 92"
  proof -
    let ?p = "init_result (registrations_for jsmith_dp 2023 ! 0)"
    let ?sv = "retention_survey jsmith_dp"
    have ev: "match_members jsmith_fuzz jsmith_dp 2023 = Inr [?p]" by code_simp
    from C1_second_pass_strategies[OF y, of jsmith_fuzz jsmith_dp 75] obtain rs rs' where
      rs: "match_members jsmith_fuzz jsmith_dp 2023 = Inr rs"
      and rs': "improved_matching jsmith_fuzz jsmith_dp 2023 75 = Inr rs'"
      and rows: "\<forall>k<length rs. retention_status (rs ! k) = ''Unknown'' \<longrightarrow>
                 partial_name_rejects jsmith_fuzz ?sv 75 (name_clean (rs ! k)) \<longrightarrow>
                 phonetic_rejects jsmith_fuzz ?sv 75 (name_clean (rs ! k)) \<longrightarrow>
                       (\<forall>i j. email_username_accepts jsmith_fuzz ?sv 75 (email_clean (rs ! k)) i \<and>
                              s_name_clean (?sv ! i) \<noteq> [] \<and>
                              first_row_with (\<lambda>s. s_name_clean s = s_name_clean (?sv ! i)) ?sv j \<longrightarrow>
                              rs' ! k = matched_as (rs ! k) (?sv ! j) ''Email_Username''
                                          (ratio jsmith_fuzz (username_of (email_clean (rs ! k)))
                                             (username_of (s_email_clean (?sv ! i)))))"
      by blast
    from ev rs have rs0: "rs = [?p]" by simp
    have u: "retention_status ?p = ''Unknown''" by (simp add: init_result_def)
    have rej: "partial_name_rejects jsmith_fuzz ?sv 75 (name_clean ?p)" by code_simp
    have rej2: "phonetic_rejects jsmith_fuzz ?sv 75 (name_clean ?p)" by code_simp
    have acc: "email_username_accepts jsmith_fuzz ?sv 75 (email_clean ?p) 0 \<and>
                              s_name_clean (?sv ! 0) \<noteq> [] \<and>
                              first_row_with (\<lambda>s. s_name_clean s = s_name_clean (?sv ! 0)) ?sv 0"
      by code_simp
    from rows rs0 u rej rej2 acc have
      "rs' ! 0 = matched_as ?p (?sv ! 0) ''Email_Username''
                   (ratio jsmith_fuzz (username_of (email_clean ?p)) (username_of (s_email_clean (?sv ! 0))))"
      by simp
    moreover have "retention_status (matched_as ?p (?sv ! 0) ''Email_Username''
                   (ratio jsmith_fuzz (username_of (email_clean ?p)) (username_of (s_email_clean (?sv ! 0)))))
                   = ''No longer in PEI''"
      "match_type (matched_as ?p (?sv ! 0) ''Email_Username''
                   (ratio jsmith_fuzz (username_of (email_clean ?p)) (username_of (s_email_clean (?sv ! 0)))))
                   = ''Email_Username''"
      "match_confidence (matched_as ?p (?sv ! 0) ''Email_Username''
                   (ratio jsmith_fuzz (username_of (email_clean ?p)) (username_of (s_email_clean (?sv ! 0)))))
                   = 92"
      by code_simp+
    ultimately show ?thesis using rs' by simp
  qed
  have 4: "\<exists>rs'. improved_matching sample_fuzz blank_email_dp 2023 75 = Inr rs' \<and>
      rs' ! 0 = init_result (registrations_for blank_email_dp 2023 ! 0)"
  proof -
    let ?p = "init_result (registrations_for blank_email_dp 2023 ! 0)"
    let ?sv = "retention_survey blank_email_dp"
    have ev: "match_members sample_fuzz blank_email_dp 2023 = Inr [?p]" by code_simp
    from C1_second_pass_strategies[OF y, of sample_fuzz blank_email_dp 75] obtain rs rs' where
      rs: "match_members sample_fuzz blank_email_dp 2023 = Inr rs"
      and rs': "improved_matching sample_fuzz blank_email_dp 2023 75 = Inr rs'"
      and rows: "\<forall>k<length rs. retention_status (rs ! k) = ''Unknown'' \<longrightarrow>
                 partial_name_rejects sample_fuzz ?sv 75 (name_clean (rs ! k)) \<longrightarrow>
                 phonetic_rejects sample_fuzz ?sv 75 (name_clean (rs ! k)) \<longrightarrow>
                 email_username_rejects sample_fuzz ?sv 75 (email_clean (rs ! k)) \<longrightarrow>
                          rs' ! k = rs ! k"
      by blast
    from ev rs have rs0: "rs = [?p]" by simp
    have u: "retention_status ?p = ''Unknown''" by (simp add: init_result_def)
    have rej: "partial_name_rejects sample_fuzz ?sv 75 (name_clean ?p)" by code_simp
    have rej2: "phonetic_rejects sample_fuzz ?sv 75 (name_clean ?p)" by code_simp
    have rej3: "email_username_rejects sample_fuzz ?sv 75 (email_clean ?p)" by code_simp
    from rows rs0 u rej rej2 rej3 have "rs' ! 0 = ?p" by simp
    then show ?thesis using rs' by simp
  qed
  have 5: "\<exists>rs'. improved_matching jsmith_fuzz noname_dp 2023 75 = Inr rs' \<and>
      rs' ! 0 = init_result (registrations_for noname_dp 2023 ! 0)"
  proof -
    let ?p = "init_result (registrations_for noname_dp 2023 ! 0)"
    let ?sv = "retention_survey noname_dp"
    have ev: "match_members jsmith_fuzz noname_dp 2023 = Inr [?p]" by code_simp
    from C1_second_pass_strategies[OF y, of jsmith_fuzz noname_dp 75] obtain rs rs' where
      rs: "match_members jsmith_fuzz noname_dp 2023 = Inr rs"
      and rs': "improved_matching jsmith_fuzz noname_dp 2023 75 = Inr rs'"
      and rows: "\<forall>k<length rs. retention_status (rs ! k) = ''Unknown'' \<longrightarrow>
                 partial_name_rejects jsmith_fuzz ?sv 75 (name_clean (rs ! k)) \<longrightarrow>
                 phonetic_rejects jsmith_fuzz ?sv 75 (name_clean (rs ! k)) \<longrightarrow>
                 (\<forall>i. email_username_accepts jsmith_fuzz ?sv 75 (email_clean (rs ! k)) i \<and>
                      s_name_clean (?sv ! i) = [] \<longrightarrow> rs' ! k = rs ! k)"
      by blast
    from ev rs have rs0: "rs = [?p]" by simp
    have u: "retention_status ?p = ''Unknown''" by (simp add: init_result_def)
    have rej: "partial_name_rejects jsmith_fuzz ?sv 75 (name_clean ?p)" by code_simp
    have rej2: "phonetic_rejects jsmith_fuzz ?sv 75 (name_clean ?p)" by code_simp
    have acc: "email_username_accepts jsmith_fuzz ?sv 75 (email_clean ?p) 0 \<and>
               s_name_clean (?sv ! 0) = []" by code_simp
    from rows rs0 u rej rej2 have
      "\<forall>i. email_username_accepts jsmith_fuzz ?sv 75 (email_clean ?p) i \<and>
           s_name_clean (?sv ! i) = [] \<longrightarrow> rs' ! 0 = ?p" by simp
    from this[rule_format, OF acc] have "rs' ! 0 = ?p" .
    then show ?thesis using rs' by simp
  qed
  have 6: "phonetic_accepts turner_fuzz (retention_survey turner_dp) 72 ''bill turner'' 0 \<and>
    (\<exists>rs'. improved_matching turner_fuzz turner_dp 2023 72 = Inr rs' \<and>
       match_type (rs' ! 0) = ''Partial_Name'' \<and> match_confidence (rs' ! 0) = 80)"
  proof -
    let ?p = "init_result (registrations_for turner_dp 2023 ! 0)"
    let ?sv = "retention_survey turner_dp"
    have ev: "match_members turner_fuzz turner_dp 2023 = Inr [?p]" by code_simp
    from C1_second_pass_strategies[OF y, of turner_fuzz turner_dp 72] obtain rs rs' where
      rs: "match_members turner_fuzz turner_dp 2023 = Inr rs"
      and rs': "improved_matching turner_fuzz turner_dp 2023 72 = Inr rs'"
      and rows: "\<forall>k<length rs. retention_status (rs ! k) = ''Unknown'' \<longrightarrow>
                 (\<forall>i. partial_name_accepts turner_fuzz ?sv 72 (name_clean (rs ! k)) i \<longrightarrow>
                      rs' ! k = matched_as (rs ! k) (?sv ! i) ''Partial_Name''
                                  (WRatio turner_fuzz (first_last (split_ws (name_clean (rs ! k))))
                                     (s_name_clean (?sv ! i))))"
      by blast
    from ev rs have rs0: "rs = [?p]" by simp
    have u: "retention_status ?p = ''Unknown''" by (simp add: init_result_def)
    have acc: "partial_name_accepts turner_fuzz ?sv 72 (name_clean ?p) 0" by code_simp
    have ph: "phonetic_accepts turner_fuzz ?sv 72 ''bill turner'' 0" by code_simp
    from rows rs0 u acc have
      "rs' ! 0 = matched_as ?p (?sv ! 0) ''Partial_Name''
                   (WRatio turner_fuzz (first_last (split_ws (name_clean ?p))) (s_name_clean (?sv ! 0)))"
      by simp
    moreover have
      "match_type (matched_as ?p (?sv ! 0) ''Partial_Name''
                   (WRatio turner_fuzz (first_last (split_ws (name_clean ?p))) (s_name_clean (?sv ! 0))))
                   = ''Partial_Name''"
      "match_confidence (matched_as ?p (?sv ! 0) ''Partial_Name''
                   (WRatio turner_fuzz (first_last (split_ws (name_clean ?p))) (s_name_clean (?sv ! 0))))
                   = 80"
      by code_simp+
    ultimately show ?thesis using rs' ph by simp
  qed
  from 1 2 3 4 5 6 show ?thesis by blast
qed

text \<open>
  A name-variant match that the second pass does not make.  \<open>william wu\<close> is a variant
  of \<open>bill wu\<close> (nickname substitution) and is the name of a survey row, a score of 100;
  at the default threshold 75 none of the three strategies accepts (the similarities
  are 71, 71 and 73), and the registration stays \<open>Unknown\<close>.  Likewise \<open>bill turner\<close>
  and \<open>william turner\<close> at the threshold 85.
\<close>

theorem C1_name_variant_counterexample:
  "''william wu'' \<in> set (generate_name_variants ''bill wu'') \<and>
   s_name_clean (retention_survey wu_dp ! 0) = ''william wu'' \<and>
   WRatio wu_fuzz ''william wu'' ''william wu'' = 100 \<and>
   map_sum id (map (\<lambda>r. (retention_status r, match_type r, match_confidence r)))
     (improved_matching wu_fuzz wu_dp 2023 75) = Inr [(''Unknown'', ''None'', 0)] \<and>
   ''william turner'' \<in> set (generate_name_variants ''bill turner'') \<and>
   WRatio turner_fuzz ''william turner'' ''william turner'' = 100 \<and>
   map_sum id (map (\<lambda>r. (retention_status r, match_type r, match_confidence r)))
     (improved_matching turner_fuzz turner_dp 2023 85) = Inr [(''Unknown'', ''None'', 0)]"
  by code_simp

end
